theory Spec2Isabelle
  imports Complex_Main
begin

section \<open>Radiative exchange of urbanMicroclimateFoam: a shallow embedding\<close>

text \<open>
  The solver's \<^verbatim>\<open>scalar\<close> is modelled by \<^typ>\<open>real\<close>: every statement below is about
  the arithmetic the source writes down, without rounding. A \<^verbatim>\<open>scalarField\<close> or
  \<^verbatim>\<open>scalarList\<close> is a list, a \<^verbatim>\<open>scalarSquareMatrix\<close> a list of rows, and a
  \<^verbatim>\<open>label\<close> that counts or indexes is a natural number.
\<close>

type_synonym scalar = real
type_synonym scalarField = "real list"
type_synonym scalarSquareMatrix = "real list list"

subsection \<open>Matrices\<close>

text \<open>\<^verbatim>\<open>scalarSquareMatrix(n, 0.0)\<close>\<close>

definition zeroMatrix :: "nat \<Rightarrow> scalarSquareMatrix" where
  "zeroMatrix n = replicate n (replicate n 0)"

text \<open>The assignment \<^verbatim>\<open>M(i, j) = v\<close>.\<close>

definition matSet :: "nat \<Rightarrow> nat \<Rightarrow> scalar \<Rightarrow> scalarSquareMatrix \<Rightarrow> scalarSquareMatrix" where
  "matSet i j v M = M[i := (M ! i)[j := v]]"

definition squareOf :: "nat \<Rightarrow> scalarSquareMatrix \<Rightarrow> bool" where
  "squareOf n M = (length M = n \<and> list_all (\<lambda>r. length r = n) M)"

subsection \<open>Coefficient matrices of the radiosity systems\<close>

text \<open>
  \<^verbatim>\<open>viewFactorSky::calculate\<close>, variable emissivity: one double loop fills the matrix
  \<^verbatim>\<open>C\<close> and accumulates the right-hand side \<^verbatim>\<open>q\<close>. \<open>sigma\<close> is the Stefan-Boltzmann
  constant \<^verbatim>\<open>physicoChemical::sigma.value()\<close>.
\<close>

definition lwVarBody ::
  "scalarField \<Rightarrow> scalarSquareMatrix \<Rightarrow> scalarField \<Rightarrow> scalarField \<Rightarrow> scalar \<Rightarrow> nat \<Rightarrow> nat
    \<Rightarrow> scalarSquareMatrix \<times> scalarField \<Rightarrow> scalarSquareMatrix \<times> scalarField" where
  "lwVarBody E F T4 qrExt sigma i j = (\<lambda>(C, q).
     let invEj = 1 / (E ! j);
         sigmaT4 = sigma * (T4 ! j)
     in if i = j
        then (matSet i j (invEj - (invEj - 1) * (F ! i ! j)) C,
              q[i := q ! i + ((F ! i ! j - 1) * sigmaT4 - qrExt ! j)])
        else (matSet i j ((1 - invEj) * (F ! i ! j)) C,
              q[i := q ! i + (F ! i ! j) * sigmaT4]))"

definition lwVarAssemble ::
  "nat \<Rightarrow> scalarField \<Rightarrow> scalarSquareMatrix \<Rightarrow> scalarField \<Rightarrow> scalarField \<Rightarrow> scalar
    \<Rightarrow> scalarSquareMatrix \<times> scalarField" where
  "lwVarAssemble n E F T4 qrExt sigma =
     fold (\<lambda>i. fold (lwVarBody E F T4 qrExt sigma i) [0..<n]) [0..<n]
       (zeroMatrix n, replicate n 0)"

text \<open>
  \<^verbatim>\<open>viewFactorSky::calculate\<close>, constant emissivity, first update: the member matrix
  \<^verbatim>\<open>CLU_\<close> is filled before it is read from the cache or decomposed.
\<close>

definition lwConstBody ::
  "scalarField \<Rightarrow> scalarSquareMatrix \<Rightarrow> nat \<Rightarrow> nat \<Rightarrow> scalarSquareMatrix \<Rightarrow> scalarSquareMatrix" where
  "lwConstBody E F i j CLU =
     (let invEj = 1 / (E ! j)
      in if i = j
         then matSet i j (invEj - (invEj - 1) * (F ! i ! j)) CLU
         else matSet i j ((1 - invEj) * (F ! i ! j)) CLU)"

definition lwConstAssemble ::
  "nat \<Rightarrow> scalarField \<Rightarrow> scalarSquareMatrix \<Rightarrow> scalarSquareMatrix \<Rightarrow> scalarSquareMatrix" where
  "lwConstAssemble n E F CLU = fold (\<lambda>i. fold (lwConstBody E F i) [0..<n]) [0..<n] CLU"

text \<open>
  \<^verbatim>\<open>directAndDiffuse::calculate\<close>, variable albedo. The irradiance \<^verbatim>\<open>Isol\<close> is read at
  the lower time stamp \<open>lo\<close> only.
\<close>

definition swVarBody ::
  "scalarField \<Rightarrow> scalarSquareMatrix \<Rightarrow> scalarField \<Rightarrow> scalarField \<Rightarrow> scalarField \<Rightarrow> nat \<Rightarrow> nat
    \<Rightarrow> scalarSquareMatrix \<times> scalarField \<Rightarrow> scalarSquareMatrix \<times> scalarField" where
  "swVarBody A F skyLo sunLo qsExt i j = (\<lambda>(C, q).
     let Isol = skyLo ! j + sunLo ! j
     in if i = j
        then (matSet i j ((1 / (1 - A ! j)) - (A ! j / (1 - A ! j)) * (F ! i ! j)) C,
              q[i := q ! i + ((- 1) * (- Isol) - qsExt ! j)])
        else (matSet i j (- (A ! j / (1 - A ! j)) * (F ! i ! j)) C,
              q[i := q ! i + (0 - qsExt ! j)]))"

definition swVarAssemble ::
  "nat \<Rightarrow> scalarField \<Rightarrow> scalarSquareMatrix \<Rightarrow> scalarField \<Rightarrow> scalarField \<Rightarrow> scalarField
    \<Rightarrow> scalarSquareMatrix \<times> scalarField" where
  "swVarAssemble n A F skyLo sunLo qsExt =
     fold (\<lambda>i. fold (swVarBody A F skyLo sunLo qsExt i) [0..<n]) [0..<n]
       (zeroMatrix n, replicate n 0)"

text \<open>\<^verbatim>\<open>directAndDiffuse::calculate\<close>, constant albedo, first update.\<close>

definition swConstBody ::
  "scalarField \<Rightarrow> scalarSquareMatrix \<Rightarrow> nat \<Rightarrow> nat \<Rightarrow> scalarSquareMatrix \<Rightarrow> scalarSquareMatrix" where
  "swConstBody A F i j CLU =
     (if i = j
      then matSet i j ((1 / (1 - A ! j)) - (A ! j / (1 - A ! j)) * (F ! i ! j)) CLU
      else matSet i j (- (A ! j / (1 - A ! j)) * (F ! i ! j)) CLU)"

definition swConstAssemble ::
  "nat \<Rightarrow> scalarField \<Rightarrow> scalarSquareMatrix \<Rightarrow> scalarSquareMatrix \<Rightarrow> scalarSquareMatrix" where
  "swConstAssemble n A F CLU = fold (\<lambda>i. fold (swConstBody A F i) [0..<n]) [0..<n] CLU"

text \<open>The entries the specification states, with \<open>x\<close> standing for \<open>1/E[j]\<close> or \<open>1/(1-A[j])\<close>.\<close>

definition specEntry :: "scalar \<Rightarrow> scalarSquareMatrix \<Rightarrow> nat \<Rightarrow> nat \<Rightarrow> scalar" where
  "specEntry x F i j = (if i = j then x - (x - 1) * (F ! i ! j) else (1 - x) * (F ! i ! j))"

subsection \<open>Smoothing of the view-factor matrix\<close>

text \<open>The inner loop \<^verbatim>\<open>sumF += Fmatrix_()(i, j)\<close>, started at \<^verbatim>\<open>0.0\<close>.\<close>

definition rowSum :: "nat \<Rightarrow> scalarSquareMatrix \<Rightarrow> nat \<Rightarrow> scalar" where
  "rowSum n M i = fold (\<lambda>j sumF. sumF + M ! i ! j) [0..<n] 0"

text \<open>
  One pass of the outer loop of \<^verbatim>\<open>viewFactorSky::initialise\<close>: the row is summed, then every
  entry is multiplied in place by \<^verbatim>\<open>(1.0 - delta/(sumF + 0.001))\<close>.
\<close>

definition smoothRowSky :: "nat \<Rightarrow> nat \<Rightarrow> scalarSquareMatrix \<Rightarrow> scalarSquareMatrix" where
  "smoothRowSky n i M =
     (let sumF = rowSum n M i;
          delta = sumF - 1
      in fold (\<lambda>j M'. matSet i j (M' ! i ! j * (1 - delta / (sumF + 1 / 1000))) M') [0..<n] M)"

definition smoothSky :: "bool \<Rightarrow> nat \<Rightarrow> scalarSquareMatrix \<Rightarrow> scalarSquareMatrix" where
  "smoothSky smoothing n Fmatrix = (if smoothing then fold (smoothRowSky n) [0..<n] Fmatrix else Fmatrix)"

text \<open>
  The same pass in \<^verbatim>\<open>directAndDiffuse::initialise\<close>, where the factor is
  \<^verbatim>\<open>(1.0 - delta/sumF)\<close>.
\<close>

definition smoothRowDD :: "nat \<Rightarrow> nat \<Rightarrow> scalarSquareMatrix \<Rightarrow> scalarSquareMatrix" where
  "smoothRowDD n i M =
     (let sumF = rowSum n M i;
          delta = sumF - 1
      in fold (\<lambda>j M'. matSet i j (M' ! i ! j * (1 - delta / sumF)) M') [0..<n] M)"

definition smoothDD :: "bool \<Rightarrow> nat \<Rightarrow> scalarSquareMatrix \<Rightarrow> scalarSquareMatrix" where
  "smoothDD smoothing n Fmatrix = (if smoothing then fold (smoothRowDD n) [0..<n] Fmatrix else Fmatrix)"

text \<open>The factor the specification states for a row whose sum is \<open>s\<close>.\<close>

definition specFactor :: "scalar \<Rightarrow> scalar" where
  "specFactor s = 1 - (s - 1) / s"

subsection \<open>The persisted LU factorisation\<close>

text \<open>
  What the file \<^verbatim>\<open>processor0/CLU_qr\<close> (long wave) or \<^verbatim>\<open>processor0/CLU_qs\<close> (short wave)
  holds, in the order it is written: the element count, the decomposed matrix, the pivots.
\<close>

record cluFile =
  storedCount :: int
  storedCLU :: scalarSquareMatrix
  storedPivots :: "int list"

text \<open>The case directory, as far as the solver touches it: a file name to its content.\<close>

type_synonym caseFiles = "string \<Rightarrow> cluFile option"

text \<open>The members of the solver that the first update sets.\<close>

record solverState =
  iterCounter :: nat
  CLUmat :: scalarSquareMatrix
  pivotIndices :: "int list"

definition msgRead :: string where
  "msgRead = ''Read decomposed C matrix from existing file!''"

definition msgMismatch :: string where
  "msgMismatch = ''Warning: File for decomposed C matrix does not match totalNCoarseFaces! Will decompose C matrix again...''"

definition msgDecompose :: string where
  "msgDecompose = ''Decomposing C matrix...''"

text \<open>
  The block of \<^verbatim>\<open>calculate\<close> after the matrix is filled, the same in both models.
  \<open>LUDecompose\<close> is the library routine, taken as a parameter; \<open>file\<close> is what
  \<^verbatim>\<open>IFstream is(fileCLU)\<close> finds (\<open>None\<close> when \<^verbatim>\<open>is.good()\<close> is false). The result is the
  matrix, the pivots, the file afterwards and the lines printed.
\<close>

definition loadOrDecompose ::
  "(scalarSquareMatrix \<Rightarrow> scalarSquareMatrix \<times> int list) \<Rightarrow> nat \<Rightarrow> int \<Rightarrow> cluFile option
    \<Rightarrow> scalarSquareMatrix \<Rightarrow> int list
    \<Rightarrow> scalarSquareMatrix \<times> int list \<times> cluFile option \<times> string list" where
  "loadOrDecompose LUDecompose nProcs totalNCoarseFaces file CLU0 piv0 =
     (let (testCLU, CLU1, piv1, log1) =
            (case file of
               None \<Rightarrow> (- 1, CLU0, piv0, [])
             | Some f \<Rightarrow>
                 if storedCount f = totalNCoarseFaces
                 then (storedCount f, storedCLU f, storedPivots f, [msgRead])
                 else (- 1, CLU0, piv0, [msgMismatch]))
      in if testCLU = - 1
         then (let (CLU2, piv2) = LUDecompose CLU1
               in (CLU2, piv2,
                   (if nProcs > 1
                    then Some \<lparr>storedCount = totalNCoarseFaces, storedCLU = CLU2, storedPivots = piv2\<rparr>
                    else file),
                   log1 @ [msgDecompose]))
         else (CLU1, piv1, file, log1))"

text \<open>
  \<^verbatim>\<open>viewFactorSky::calculate\<close> on the master, constant emissivity: the part that runs when
  \<^verbatim>\<open>iterCounter_ == 0\<close>, and the increment of the counter at the end of the update. The
  right-hand side and the back substitution between the two do not touch these members.
\<close>

definition fileCLU_qr :: string where
  "fileCLU_qr = ''processor0/CLU_qr''"

definition fileCLU_qs :: string where
  "fileCLU_qs = ''processor0/CLU_qs''"

definition constUpdateSky ::
  "(scalarSquareMatrix \<Rightarrow> scalarSquareMatrix \<times> int list) \<Rightarrow> nat \<Rightarrow> nat \<Rightarrow> scalarField
    \<Rightarrow> scalarSquareMatrix \<Rightarrow> caseFiles \<Rightarrow> solverState \<Rightarrow> solverState \<times> caseFiles \<times> string list" where
  "constUpdateSky LUDecompose nProcs n E F files st =
     (if iterCounter st = 0
      then (let (CLU', piv', file', msgs) =
                  loadOrDecompose LUDecompose nProcs (int n) (files fileCLU_qr)
                    (lwConstAssemble n E F (CLUmat st)) (pivotIndices st)
            in (st\<lparr>iterCounter := iterCounter st + 1, CLUmat := CLU', pivotIndices := piv'\<rparr>,
                files(fileCLU_qr := file'), msgs))
      else (st\<lparr>iterCounter := iterCounter st + 1\<rparr>, files, []))"

text \<open>\<^verbatim>\<open>directAndDiffuse::calculate\<close>, constant albedo.\<close>

definition constUpdateDD ::
  "(scalarSquareMatrix \<Rightarrow> scalarSquareMatrix \<times> int list) \<Rightarrow> nat \<Rightarrow> nat \<Rightarrow> scalarField
    \<Rightarrow> scalarSquareMatrix \<Rightarrow> caseFiles \<Rightarrow> solverState \<Rightarrow> solverState \<times> caseFiles \<times> string list" where
  "constUpdateDD LUDecompose nProcs n A F files st =
     (if iterCounter st = 0
      then (let (CLU', piv', file', msgs) =
                  loadOrDecompose LUDecompose nProcs (int n) (files fileCLU_qs)
                    (swConstAssemble n A F (CLUmat st)) (pivotIndices st)
            in (st\<lparr>iterCounter := iterCounter st + 1, CLUmat := CLU', pivotIndices := piv'\<rparr>,
                files(fileCLU_qs := file'), msgs))
      else (st\<lparr>iterCounter := iterCounter st + 1\<rparr>, files, []))"

text \<open>The state the constructor and \<^verbatim>\<open>initialise\<close> leave: counter 0, a zero matrix, \<open>n\<close> pivots.\<close>

definition initialState :: "nat \<Rightarrow> solverState" where
  "initialState n = \<lparr>iterCounter = 0, CLUmat = zeroMatrix n, pivotIndices = replicate n 0\<rparr>"

subsection \<open>Interpolation between sun-position time stamps\<close>

text \<open>
  The search of \<^verbatim>\<open>directAndDiffuse::calculate\<close> over \<^verbatim>\<open>sunPosVector_x\<close>: while the time is
  at or after the stamp \<open>i\<close>, both bounds move to \<open>i\<close>; at the first later stamp the upper bound
  is set and the loop breaks. \<open>i\<close> is the index of the head of the list still to be scanned.
\<close>

fun sunRangeFrom :: "scalarField \<Rightarrow> scalar \<Rightarrow> nat \<Rightarrow> nat \<times> nat \<Rightarrow> nat \<times> nat" where
  "sunRangeFrom [] t i (lo, hi) = (lo, hi)"
| "sunRangeFrom (x # xs) t i (lo, hi) =
     (if t \<ge> x then sunRangeFrom xs t (i + 1) (i, i) else (lo, i))"

definition sunRange :: "scalarField \<Rightarrow> scalar \<Rightarrow> nat \<times> nat" where
  "sunRange sunPosVector_x t = sunRangeFrom sunPosVector_x t 0 (0, 0)"

definition hi_fraction :: "scalarField \<Rightarrow> scalar \<Rightarrow> scalar" where
  "hi_fraction sunPosVector_x t =
     (let (lo, hi) = sunRange sunPosVector_x t
      in if lo \<noteq> hi
         then (t - sunPosVector_x ! lo) / (sunPosVector_x ! hi - sunPosVector_x ! lo)
         else 0)"

text \<open>
  What the constant-albedo path puts on the right-hand side for element \<open>j\<close>, from the
  stored tables \<^verbatim>\<open>skyViewCoeffGlobal_\<close> and \<^verbatim>\<open>sunViewCoeffGlobal_\<close> (one row per time stamp).
\<close>

definition Isol :: "scalarField list \<Rightarrow> scalarField list \<Rightarrow> scalarField \<Rightarrow> scalar \<Rightarrow> nat \<Rightarrow> scalar" where
  "Isol skyViewCoeffGlobal sunViewCoeffGlobal sunPosVector_x t j =
     (let (lo, hi) = sunRange sunPosVector_x t;
          hf = hi_fraction sunPosVector_x t
      in skyViewCoeffGlobal ! lo ! j * (1 - hf) + skyViewCoeffGlobal ! hi ! j * hf
       + sunViewCoeffGlobal ! lo ! j * (1 - hf) + sunViewCoeffGlobal ! hi ! j * hf)"

text \<open>
  The correction of a wall face when the fluxes are written back: the coarse sun coefficient is
  taken out and the fine-face load put in, both interpolated the same way and both absorbed with
  \<open>1 - A\<close>.
\<close>

definition fineCorrection ::
  "scalarField list \<Rightarrow> scalarField list \<Rightarrow> scalarField \<Rightarrow> scalar \<Rightarrow> scalarField \<Rightarrow> nat \<Rightarrow> nat
    \<Rightarrow> scalar \<Rightarrow> scalar" where
  "fineCorrection sunViewCoeffGlobal solarLoadFineFacesGlobal sunPosVector_x t A globalCoarse globalFine q =
     (let (lo, hi) = sunRange sunPosVector_x t;
          hf = hi_fraction sunPosVector_x t;
          q1 = q - (sunViewCoeffGlobal ! lo ! globalCoarse * (1 - hf)
                    + sunViewCoeffGlobal ! hi ! globalCoarse * hf) * (1 - A ! globalCoarse)
      in q1 + (solarLoadFineFacesGlobal ! lo ! globalFine * (1 - hf)
               + solarLoadFineFacesGlobal ! hi ! globalFine * hf) * (1 - A ! globalCoarse))"

subsection \<open>Sun coupling coefficients (solarRayTracingGen)\<close>

type_synonym vector = "real \<times> real \<times> real"

text \<open>The inner product \<^verbatim>\<open>a & b\<close> and the magnitude \<^verbatim>\<open>mag(a)\<close> of vectors.\<close>

fun vdot :: "vector \<Rightarrow> vector \<Rightarrow> scalar" where
  "vdot (ax, ay, az) (bx, by, bz) = ax * bx + ay * by + az * bz"

definition vmag :: "vector \<Rightarrow> scalar" where
  "vmag a = sqrt (vdot a a)"

text \<open>
  \<^verbatim>\<open>(Sf & sunPos)/(mag(Sf)*mag(sunPos) + SMALL)\<close>. \<open>SMALL\<close> is the library's smallest scalar
  worth dividing by (\<open>1e-15\<close> in double precision), taken as a parameter.
\<close>

definition cosPhiOf :: "scalar \<Rightarrow> vector \<Rightarrow> vector \<Rightarrow> scalar" where
  "cosPhiOf SMALL Sf sunPos = vdot Sf sunPos / (vmag Sf * vmag sunPos + SMALL)"



text \<open>
  The data of one sun direction that the body of the coefficient loop reads for one coarse face:
  the fine faces agglomerated into it (patch-local indices), the offset \<^verbatim>\<open>fineFaceNo\<close> of the
  patch in the fine lists, the area vectors and areas, the number of unobstructed rays counted
  for each fine face (\<^verbatim>\<open>nVisibleFaceFacesListFINE[vectorId]\<close>), the sun vector, the direct
  irradiance, and the vegetation data.
\<close>

record coarseFaceData =
  fineFaces :: "nat list"
  fineFaceNo :: nat
  localFINESf :: "vector list"
  fineMagSf :: scalarField
  coarseMagSf :: scalar
  localCoarseSf :: vector
  nVisibleFINE :: "nat list"
  sunPos :: vector
  IDN :: scalar
  vegNamesSize :: nat
  kcLAIboundary :: scalar

text \<open>The first loop over the fine faces: \<^verbatim>\<open>solarLoadFineFaces\<close> without vegetation.\<close>

definition solarLoadFine :: "scalar \<Rightarrow> coarseFaceData \<Rightarrow> scalarField \<Rightarrow> scalarField" where
  "solarLoadFine SMALL d load =
     fold (\<lambda>faceI ld.
             let cosPhi = cosPhiOf SMALL (localFINESf d ! (fineFaceNo d + faceI)) (sunPos d)
             in ld[fineFaceNo d + faceI :=
                     real (nVisibleFINE d ! (fineFaceNo d + faceI)) * \<bar>cosPhi\<bar> * IDN d])
       (fineFaces d) load"

text \<open>The second loop: the area-weighted share of the fine faces that see the sun.\<close>

definition nVisibleFINE_avg :: "coarseFaceData \<Rightarrow> scalar" where
  "nVisibleFINE_avg d =
     fold (\<lambda>faceI avg.
             avg + real (nVisibleFINE d ! (fineFaceNo d + faceI)) * (fineMagSf d ! faceI)
                   / coarseMagSf d)
       (fineFaces d) 0"

text \<open>
  The rest of the body: the coarse coefficient, and under vegetation the Beer-Lambert part for
  the shaded share of a face that looks towards the sun (\<^verbatim>\<open>cosPhi < 0\<close>), with the shaded fine
  faces overwritten. The result is the entry of \<^verbatim>\<open>sunViewCoeff\<close> and the updated
  \<^verbatim>\<open>solarLoadFineFaces\<close>.
\<close>

definition sunViewCoeffFace :: "scalar \<Rightarrow> coarseFaceData \<Rightarrow> scalarField \<Rightarrow> scalar \<times> scalarField" where
  "sunViewCoeffFace SMALL d load0 =
     (let load1 = solarLoadFine SMALL d load0;
          avg = nVisibleFINE_avg d;
          cosPhi = cosPhiOf SMALL (localCoarseSf d) (sunPos d);
          coeff = avg * \<bar>cosPhi\<bar> * IDN d
      in if vegNamesSize d > 0 \<and> kcLAIboundary d - 0 > SMALL \<and> cosPhi < 0
         then (coeff + (1 - avg) * \<bar>cosPhi\<bar> * IDN d * exp (- kcLAIboundary d),
               fold (\<lambda>faceI ld.
                       let cosPhiF = cosPhiOf SMALL (localFINESf d ! (fineFaceNo d + faceI)) (sunPos d)
                       in if nVisibleFINE d ! (fineFaceNo d + faceI) = 0
                          then ld[fineFaceNo d + faceI :=
                                    \<bar>cosPhiF\<bar> * IDN d * exp (- kcLAIboundary d)]
                          else ld)
                 (fineFaces d) load1)
         else (coeff, load1))"

text \<open>
  The check that stands before the loop: with a vegetation region configured, the list
  \<^verbatim>\<open>kcLAIboundary\<close> written by \<^verbatim>\<open>calcLAI\<close> must be there. \<open>None\<close> is a file that is absent
  (\<^verbatim>\<open>typeHeaderOk\<close> false); \<^verbatim>\<open>READ_IF_PRESENT\<close> then leaves the list empty.
\<close>

datatype fatal = FatalError string

definition msgNoKcLAI :: string where
  "msgNoKcLAI = ''File kcLAIboundary not found! Did you not run calcLAI before?''"

definition readKcLAIboundary :: "string list \<Rightarrow> scalarField list option \<Rightarrow> fatal + scalarField list" where
  "readKcLAIboundary vegNames kcLAIfile =
     (if length vegNames > 0 \<and> kcLAIfile = None
      then Inl (FatalError msgNoKcLAI)
      else Inr (case kcLAIfile of None \<Rightarrow> [] | Some l \<Rightarrow> l))"

text \<open>
  The coefficient of the coarse face \<open>faceNoAll\<close> for the sun direction \<open>vectorId\<close>, as the
  program gets to it: nothing is computed once the check has failed.
\<close>

definition sunViewCoeffAt ::
  "scalar \<Rightarrow> string list \<Rightarrow> scalarField list option \<Rightarrow> nat \<Rightarrow> nat \<Rightarrow> coarseFaceData \<Rightarrow> scalarField
    \<Rightarrow> fatal + scalar \<times> scalarField" where
  "sunViewCoeffAt SMALL vegNames kcLAIfile vectorId faceNoAll d load0 =
     (case readKcLAIboundary vegNames kcLAIfile of
        Inl e \<Rightarrow> Inl e
      | Inr kcLAIboundaryList \<Rightarrow>
          Inr (sunViewCoeffFace SMALL
                 (d\<lparr>vegNamesSize := length vegNames,
                    kcLAIboundary := (if length vegNames > 0
                                      then kcLAIboundaryList ! vectorId ! faceNoAll else 0)\<rparr>)
                 load0))"



text \<open>
  A flat horizontal element of the ground with the sun overhead (its area vector points out of
  the fluid, downwards) and nothing in the way: one fine face, counted once. And the same
  element turned over, with the count that the ray pass gives it.
\<close>

definition groundFace :: coarseFaceData where
  "groundFace = \<lparr>fineFaces = [0], fineFaceNo = 0, localFINESf = [(0, 0, - 1)], fineMagSf = [1],
     coarseMagSf = 1, localCoarseSf = (0, 0, - 1), nVisibleFINE = [1], sunPos = (0, 0, 1),
     IDN = 1000, vegNamesSize = 0, kcLAIboundary = 0\<rparr>"


subsection \<open>The leaf-area pre-pass (calcLAI)\<close>

text \<open>
  The fields on the Cartesian grids are addressed by a flat \<^verbatim>\<open>int\<close> index computed from three
  grid indices. They are modelled as functions from the index to the value, with
  \<^verbatim>\<open>setSize(n, zero)\<close> the zero function. The source does no range check on these reads.
\<close>

type_synonym gridField = "int \<Rightarrow> scalar"

text \<open>\<^verbatim>\<open>pIndex = (nx*ny)*k + j*nx + i\<close>\<close>

definition pIndex :: "int \<Rightarrow> int \<Rightarrow> int \<Rightarrow> int \<Rightarrow> int \<Rightarrow> int" where
  "pIndex nx ny i j k = (nx * ny) * k + j * nx + i"

text \<open>
  \<^verbatim>\<open>integrateLAD\<close>: for every column \<open>(i, j)\<close>, from the second layer from the top downwards,
  the trapezoidal rule along the ray axis.
\<close>

definition trapezoidStep :: "gridField \<Rightarrow> int \<Rightarrow> int \<Rightarrow> scalar \<Rightarrow> int \<Rightarrow> int \<Rightarrow> int \<Rightarrow> gridField \<Rightarrow> gridField" where
  "trapezoidStep LADInterpRot nxRot nyRot dpz i j k LAIInterpRot =
     (let p = pIndex nxRot nyRot i j k;
          pkp1 = pIndex nxRot nyRot i j (k + 1)
      in LAIInterpRot(p := LAIInterpRot pkp1
                             + 0.5 * (LADInterpRot p + LADInterpRot pkp1) * dpz))"

definition integrateLAD :: "gridField \<Rightarrow> int \<Rightarrow> int \<Rightarrow> int \<Rightarrow> scalar \<Rightarrow> gridField" where
  "integrateLAD LADInterpRot nxRot nyRot nzRot dpz =
     fold (\<lambda>i. fold (\<lambda>j. fold (trapezoidStep LADInterpRot nxRot nyRot dpz i j)
                              (rev [0..nzRot - 2]))
                    [0..nyRot - 1])
          [0..nxRot - 1]
          (\<lambda>_. 0)"

text \<open>
  \<^verbatim>\<open>qrswInterpRot = IDN_y[vectorID]*Foam::exp(-kc*LAIInterpRot)\<close>, and the extinction
  coefficient \<^verbatim>\<open>lookupOrDefault("kc", coeffs, 0.5)\<close>.
\<close>

definition qrswInterpRot :: "scalar \<Rightarrow> scalar \<Rightarrow> gridField \<Rightarrow> gridField" where
  "qrswInterpRot IDNy kc LAIInterpRot = (\<lambda>p. IDNy * exp (- kc * LAIInterpRot p))"

definition kcOf :: "(string \<rightharpoonup> scalar) \<Rightarrow> scalar" where
  "kcOf coeffs = (case coeffs ''kc'' of None \<Rightarrow> 0.5 | Some v \<Rightarrow> v)"

text \<open>
  A canopy of one leaf-area density \<open>d\<close> on the rotated grid: the layers \<open>a\<close> to \<open>b\<close> of every
  column hold \<open>d\<close>, all other nodes hold 0.
\<close>

definition uniformCanopy :: "int \<Rightarrow> int \<Rightarrow> int \<Rightarrow> int \<Rightarrow> scalar \<Rightarrow> gridField" where
  "uniformCanopy nx ny a b d =
     (\<lambda>p. if a \<le> p div (nx * ny) \<and> p div (nx * ny) \<le> b then d else 0)"

text \<open>
  \<^verbatim>\<open>interp3D\<close>: trilinear interpolation of a grid field at a point. \<^verbatim>\<open>floor\<close> gives the lower
  grid indices, the vertical one bounded below by 0.
\<close>

definition interp3D :: "vector \<Rightarrow> gridField \<Rightarrow> int \<Rightarrow> int \<Rightarrow> vector \<Rightarrow> vector \<Rightarrow> scalar" where
  "interp3D ptemp valInterp nx ny pmin dp =
     (case (ptemp, pmin, dp) of ((px, py, pz), (mx, my, mz), (dx, dy, dz)) \<Rightarrow>
      let xp = px - mx; yp = py - my; zp = pz - mz;
          i0 = \<lfloor>xp / dx\<rfloor>; j0 = \<lfloor>yp / dy\<rfloor>; k0 = max 0 \<lfloor>zp / dz\<rfloor>;
          i000 = (nx * ny) * k0 + j0 * nx + i0;
          i100 = (nx * ny) * k0 + j0 * nx + i0 + 1;
          i010 = (nx * ny) * k0 + (j0 + 1) * nx + i0;
          i110 = (nx * ny) * k0 + (j0 + 1) * nx + i0 + 1;
          i001 = (nx * ny) * (k0 + 1) + j0 * nx + i0;
          i101 = (nx * ny) * (k0 + 1) + j0 * nx + i0 + 1;
          i011 = (nx * ny) * (k0 + 1) + (j0 + 1) * nx + i0;
          i111 = (nx * ny) * (k0 + 1) + (j0 + 1) * nx + i0 + 1;
          x000 = mx + of_int i0 * dx; y000 = my + of_int j0 * dy; z000 = mz + of_int k0 * dz;
          xd = (px - x000) / dx; yd = (py - y000) / dy; zd = (pz - z000) / dz;
          c00 = valInterp i000 * (1 - xd) + valInterp i100 * xd;
          c01 = valInterp i001 * (1 - xd) + valInterp i101 * xd;
          c10 = valInterp i010 * (1 - xd) + valInterp i110 * xd;
          c11 = valInterp i011 * (1 - xd) + valInterp i111 * xd;
          c0 = c00 * (1 - yd) + c10 * yd;
          c1 = c01 * (1 - yd) + c11 * yd
      in c0 * (1 - zd) + c1 * zd)"

text \<open>
  For the statements about \<^verbatim>\<open>integrateLAD\<close>: the area of one trapezoid of the column \<open>(i, j)\<close>,
  and the sum of the trapezoids from layer \<open>k\<close> up to the top of the grid.
\<close>

definition trapezoid :: "gridField \<Rightarrow> int \<Rightarrow> int \<Rightarrow> scalar \<Rightarrow> int \<Rightarrow> int \<Rightarrow> int \<Rightarrow> scalar" where
  "trapezoid LADInterpRot nx ny dpz i j k =
     0.5 * (LADInterpRot (pIndex nx ny i j k) + LADInterpRot (pIndex nx ny i j (k + 1))) * dpz"

definition columnLAI :: "gridField \<Rightarrow> int \<Rightarrow> int \<Rightarrow> int \<Rightarrow> scalar \<Rightarrow> int \<Rightarrow> int \<Rightarrow> int \<Rightarrow> scalar" where
  "columnLAI LADInterpRot nx ny nz dpz i j k =
     (\<Sum>k' \<in> {k..nz - 2}. trapezoid LADInterpRot nx ny dpz i j k')"

text \<open>
  The loop invariant of \<^verbatim>\<open>integrateLAD\<close>: the columns in \<open>D\<close> hold their trapezoid sums, the
  others are still zero.
\<close>

definition integrated ::
  "gridField \<Rightarrow> int \<Rightarrow> int \<Rightarrow> int \<Rightarrow> scalar \<Rightarrow> (int \<times> int) set \<Rightarrow> gridField \<Rightarrow> bool" where
  "integrated LADInterpRot nx ny nz dpz D LAIInterpRot =
     (\<forall>i j k. 0 \<le> i \<and> i < nx \<and> 0 \<le> j \<and> j < ny \<and> 0 \<le> k \<and> k \<le> nz - 1 \<longrightarrow>
        LAIInterpRot (pIndex nx ny i j k)
          = (if (i, j) \<in> D then columnLAI LADInterpRot nx ny nz dpz i j k else 0))"

subsection \<open>Leaf-area index of cells and surface elements (calcLAI, main)\<close>

text \<open>
  The loop over the rays cast from the cells inside the vegetation bounding box. A ray that hits
  nothing queues the cell for interpolation; a ray that hits an obstruction sets the cell's
  \<^verbatim>\<open>LAI\<close> to 1000, but only where the cell holds vegetation (\<^verbatim>\<open>LAD[cellI] > 10*SMALL\<close>). The
  state is \<^verbatim>\<open>ptempDyn\<close>, \<^verbatim>\<open>ptempIndexDyn\<close> and \<^verbatim>\<open>LAI\<close>. The divergence field, which the same
  loops fill, is left out.
\<close>

definition cellRayStep ::
  "scalar \<Rightarrow> scalarField \<Rightarrow> vector list \<Rightarrow> nat list \<Rightarrow> bool list \<Rightarrow> nat
    \<Rightarrow> vector list \<times> nat list \<times> scalarField \<Rightarrow> vector list \<times> nat list \<times> scalarField" where
  "cellRayStep SMALL LAD pmeshCRot insideCellIList pHitList rayI = (\<lambda>(ptempDyn, ptempIndexDyn, LAI).
     let cellI = insideCellIList ! rayI
     in if \<not> pHitList ! rayI
        then (ptempDyn @ [pmeshCRot ! cellI], ptempIndexDyn @ [cellI], LAI)
        else if LAD ! cellI > 10 * SMALL
             then (ptempDyn, ptempIndexDyn, LAI[cellI := 1000])
             else (ptempDyn, ptempIndexDyn, LAI))"

definition cellRays ::
  "scalar \<Rightarrow> scalarField \<Rightarrow> vector list \<Rightarrow> nat list \<Rightarrow> bool list \<Rightarrow> scalarField
    \<Rightarrow> vector list \<times> nat list \<times> scalarField" where
  "cellRays SMALL LAD pmeshCRot insideCellIList pHitList LAI0 =
     fold (cellRayStep SMALL LAD pmeshCRot insideCellIList pHitList) [0..<length pHitList]
       ([], [], LAI0)"

text \<open>
  The values interpolated for the queued points come back in the order of the queue and are
  written to the queued indices: \<^verbatim>\<open>LAI[ptempIndexDyn[i]] = LAI_[..][i]\<close>.
\<close>

definition writeBack :: "nat list \<Rightarrow> scalarField \<Rightarrow> scalarField \<Rightarrow> scalarField" where
  "writeBack ptempIndexDyn LAILocal LAI =
     fold (\<lambda>i LAI'. LAI'[ptempIndexDyn ! i := LAILocal ! i]) [0..<length LAILocal] LAI"

text \<open>
  The cell part for one sun direction: \<^verbatim>\<open>LAI\<close> starts at zero for all \<open>nMeshCells\<close> cells; the
  queued points are interpolated on the rotated cumulative grid.
\<close>

definition cellLAI ::
  "scalar \<Rightarrow> scalarField \<Rightarrow> vector list \<Rightarrow> nat list \<Rightarrow> bool list \<Rightarrow> nat
    \<Rightarrow> gridField \<Rightarrow> int \<Rightarrow> int \<Rightarrow> vector \<Rightarrow> vector \<Rightarrow> scalarField" where
  "cellLAI SMALL LAD pmeshCRot insideCellIList pHitList nMeshCells LAIInterpRot nxRot nyRot pminRot dp =
     (case cellRays SMALL LAD pmeshCRot insideCellIList pHitList (replicate nMeshCells 0) of
        (ptempDyn, ptempIndexDyn, LAI) \<Rightarrow>
          writeBack ptempIndexDyn
            (map (\<lambda>ptemp. interp3D ptemp LAIInterpRot nxRot nyRot pminRot dp) ptempDyn) LAI)"

text \<open>
  The surface elements. The nested \<^verbatim>\<open>while\<close> loops walk the coarse faces of the selected
  patches: the patches before the next selected one are skipped with their faces counted into
  \<open>k\<close>, then every face of the selected patch is visited with its running number \<open>faceNo\<close> and
  its position \<open>k\<close> among all coarse faces.
\<close>

function skipFaces :: "nat \<Rightarrow> nat \<times> nat \<Rightarrow> nat \<times> nat" where
  "skipFaces n (j, k) = (if j < n then skipFaces n (j + 1, k + 1) else (j, k))"
  by pat_completeness auto
termination
  by (relation "measure (\<lambda>(n, j, k). n - j)") auto

function skipPatches :: "nat list \<Rightarrow> nat \<Rightarrow> nat \<times> nat \<times> nat \<Rightarrow> nat \<times> nat \<times> nat" where
  "skipPatches perPatch target (i, j, k) =
     (if i < target
      then (case skipFaces (perPatch ! i) (j, k) of (j', k') \<Rightarrow> skipPatches perPatch target (i + 1, 0, k'))
      else (i, j, k))"
  by pat_completeness auto
termination
  by (relation "measure (\<lambda>(perPatch, target, i, j, k). target - i)") auto

function visitPatch :: "nat \<Rightarrow> nat \<times> nat \<times> nat \<Rightarrow> (nat \<times> nat) list \<Rightarrow> (nat \<times> nat \<times> nat) \<times> (nat \<times> nat) list" where
  "visitPatch n (j, k, faceNo) visited =
     (if j < n then visitPatch n (j + 1, k + 1, faceNo + 1) (visited @ [(faceNo, k)])
      else ((j, k, faceNo), visited))"
  by pat_completeness auto
termination
  by (relation "measure (\<lambda>(n, (j, k, faceNo), visited). n - j)") auto

definition visitedFaces :: "nat list \<Rightarrow> nat list \<Rightarrow> (nat \<times> nat) list" where
  "visitedFaces vegViewFactorsPatches vegHowManyCoarseFacesPerPatch =
     snd (fold (\<lambda>target ((i, j, k, faceNo), visited).
                  case skipPatches vegHowManyCoarseFacesPerPatch target (i, j, k) of (i', j', k') \<Rightarrow>
                  case visitPatch (vegHowManyCoarseFacesPerPatch ! i') (j', k', faceNo) visited of
                    ((j'', k'', faceNo'), visited') \<Rightarrow> ((i', j'', k'', faceNo'), visited'))
            vegViewFactorsPatches ((0, 0, 0, 0), []))"

text \<open>
  The body of the inner loop for the face \<open>(faceNo, k)\<close>: a face inside the bounding box takes
  the next entry of the hit list; if that ray hit nothing the rotated face centre is queued under
  \<open>k\<close>, otherwise \<^verbatim>\<open>kcLAIboundary[k] = 1000\<close>. \<open>T\<close> is the rotation into the ray frame.
\<close>

definition faceStep ::
  "bool list \<Rightarrow> bool list \<Rightarrow> (vector \<Rightarrow> vector) \<Rightarrow> vector list \<Rightarrow> nat \<times> nat
    \<Rightarrow> nat \<times> vector list \<times> nat list \<times> scalarField \<Rightarrow> nat \<times> vector list \<times> nat list \<times> scalarField" where
  "faceStep vegCoarseFaceInsideList vegCoarseFacePHitList T vegLocalCoarseCf = (\<lambda>(faceNo, k).
     \<lambda>(insideFaceI, ptempDyn, ptempIndexDyn, kcLAIb).
       if vegCoarseFaceInsideList ! faceNo
       then (if \<not> vegCoarseFacePHitList ! insideFaceI
             then (insideFaceI + 1, ptempDyn @ [T (vegLocalCoarseCf ! faceNo)],
                   ptempIndexDyn @ [k], kcLAIb)
             else (insideFaceI + 1, ptempDyn, ptempIndexDyn, kcLAIb[k := 1000]))
       else (insideFaceI, ptempDyn, ptempIndexDyn, kcLAIb))"

text \<open>
  The face part for one sun direction, over the faces in the order the loops visit them:
  \<^verbatim>\<open>kcLAIboundary\<close> starts at zero for all coarse faces, and the queued faces get
  \<^verbatim>\<open>kc*interp3D(...)\<close>.
\<close>

definition faceKcLAI ::
  "bool list \<Rightarrow> bool list \<Rightarrow> (vector \<Rightarrow> vector) \<Rightarrow> vector list \<Rightarrow> (nat \<times> nat) list \<Rightarrow> nat
    \<Rightarrow> scalar \<Rightarrow> gridField \<Rightarrow> int \<Rightarrow> int \<Rightarrow> vector \<Rightarrow> vector \<Rightarrow> scalarField" where
  "faceKcLAI vegCoarseFaceInsideList vegCoarseFacePHitList T vegLocalCoarseCf visited vegNCoarseFacesAll
      kc LAIInterpRot nxRot nyRot pminRot dp =
     (case fold (faceStep vegCoarseFaceInsideList vegCoarseFacePHitList T vegLocalCoarseCf) visited
             (0, [], [], replicate vegNCoarseFacesAll 0) of
        (insideFaceI, ptempDyn, ptempIndexDyn, kcLAIb) \<Rightarrow>
          writeBack ptempIndexDyn
            (map (\<lambda>ptemp. kc * interp3D ptemp LAIInterpRot nxRot nyRot pminRot dp) ptempDyn)
            kcLAIb)"

text \<open>
  The entry of the hit list that the loop reads for the face at position \<open>p\<close> of the visit: the
  number of faces inside the bounding box that were visited before it.
\<close>

definition insideBefore :: "bool list \<Rightarrow> (nat \<times> nat) list \<Rightarrow> nat \<Rightarrow> nat" where
  "insideBefore vegCoarseFaceInsideList visited p =
     length (filter (\<lambda>(faceNo, k). vegCoarseFaceInsideList ! faceNo) (take p visited))"

text \<open>
  Both loops have one shape, used in the proofs: step \<open>r\<close> is skipped if not \<open>active\<close>, queues the
  point \<open>pt r\<close> under the index \<open>idx r\<close> if the ray did not hit, and otherwise writes 1000 at
  \<open>idx r\<close> where \<open>guard r\<close> holds.
\<close>

definition queueStep ::
  "(nat \<Rightarrow> bool) \<Rightarrow> (nat \<Rightarrow> bool) \<Rightarrow> (nat \<Rightarrow> nat) \<Rightarrow> (nat \<Rightarrow> vector) \<Rightarrow> (nat \<Rightarrow> bool) \<Rightarrow> nat
    \<Rightarrow> vector list \<times> nat list \<times> scalarField \<Rightarrow> vector list \<times> nat list \<times> scalarField" where
  "queueStep active hit idx pt guard r = (\<lambda>(P, I, L).
     if active r
     then (if \<not> hit r then (P @ [pt r], I @ [idx r], L)
           else if guard r then (P, I, L[idx r := 1000]) else (P, I, L))
     else (P, I, L))"

definition queued :: "(nat \<Rightarrow> bool) \<Rightarrow> (nat \<Rightarrow> bool) \<Rightarrow> nat \<Rightarrow> nat list" where
  "queued active hit n = filter (\<lambda>r. active r \<and> \<not> hit r) [0..<n]"

subsection \<open>Scalars of the temperature iterations\<close>

text \<open>
  In the two temperature loops a comparison decides what is stored and what is printed, and a
  double that is not a number fails every comparison. The scalars of these loops are therefore
  modelled with the special values of IEEE 754 arithmetic: not-a-number, the two infinities and
  the finite values. On the finite values the arithmetic is exact: no rounding, no overflow, and
  a zero without sign (a non-zero number divided by zero is the infinity with the sign of the
  numerator).
\<close>

datatype doubleScalar = NaN | NInf | Fin real | PInf

text \<open>The infinity of a given sign, and the sign of a value (0 for zero and for \<open>NaN\<close>).\<close>

definition signedInf :: "real \<Rightarrow> doubleScalar" where
  "signedInf s = (if 0 < s then PInf else NInf)"

fun signOf :: "doubleScalar \<Rightarrow> real" where
  "signOf NaN = 0"
| "signOf NInf = - 1"
| "signOf (Fin x) = sgn x"
| "signOf PInf = 1"

instantiation doubleScalar :: "{uminus, plus, minus, times, inverse, ord}"
begin

fun uminus_doubleScalar :: "doubleScalar \<Rightarrow> doubleScalar" where
  "- NaN = NaN"
| "- NInf = PInf"
| "- (Fin x) = Fin (- x)"
| "- PInf = NInf"

fun plus_doubleScalar :: "doubleScalar \<Rightarrow> doubleScalar \<Rightarrow> doubleScalar" where
  "NaN + (b :: doubleScalar) = NaN"
| "(a :: doubleScalar) + NaN = NaN"
| "Fin x + Fin y = Fin (x + y)"
| "PInf + NInf = NaN"
| "NInf + PInf = NaN"
| "PInf + (b :: doubleScalar) = PInf"
| "(a :: doubleScalar) + PInf = PInf"
| "NInf + (b :: doubleScalar) = NInf"
| "(a :: doubleScalar) + NInf = NInf"

definition minus_doubleScalar :: "doubleScalar \<Rightarrow> doubleScalar \<Rightarrow> doubleScalar" where
  "minus_doubleScalar a b = a + (- b)"

fun times_doubleScalar :: "doubleScalar \<Rightarrow> doubleScalar \<Rightarrow> doubleScalar" where
  "NaN * (b :: doubleScalar) = NaN"
| "(a :: doubleScalar) * NaN = NaN"
| "Fin x * Fin y = Fin (x * y)"
| "(a :: doubleScalar) * (b :: doubleScalar) = (if signOf a * signOf b = 0 then NaN else signedInf (signOf a * signOf b))"

fun divide_doubleScalar :: "doubleScalar \<Rightarrow> doubleScalar \<Rightarrow> doubleScalar" where
  "divide_doubleScalar NaN b = NaN"
| "divide_doubleScalar a NaN = NaN"
| "divide_doubleScalar (Fin x) (Fin y) =
     (if y \<noteq> 0 then Fin (x / y) else if x = 0 then NaN else signedInf x)"
| "divide_doubleScalar (Fin x) b = Fin 0"
| "divide_doubleScalar a (Fin y) = signedInf (if y < 0 then - signOf a else signOf a)"
| "divide_doubleScalar a b = NaN"

definition inverse_doubleScalar :: "doubleScalar \<Rightarrow> doubleScalar" where
  "inverse_doubleScalar a = divide (Fin 1) a"

fun less_doubleScalar :: "doubleScalar \<Rightarrow> doubleScalar \<Rightarrow> bool" where
  "NaN < (b :: doubleScalar) \<longleftrightarrow> False"
| "(a :: doubleScalar) < NaN \<longleftrightarrow> False"
| "Fin x < Fin y \<longleftrightarrow> x < y"
| "(a :: doubleScalar) < NInf \<longleftrightarrow> False"
| "NInf < (b :: doubleScalar) \<longleftrightarrow> True"
| "PInf < (b :: doubleScalar) \<longleftrightarrow> False"
| "(a :: doubleScalar) < PInf \<longleftrightarrow> True"

definition less_eq_doubleScalar :: "doubleScalar \<Rightarrow> doubleScalar \<Rightarrow> bool" where
  "less_eq_doubleScalar a b \<longleftrightarrow> a < b \<or> (a = b \<and> a \<noteq> NaN)"

instance ..

end

text \<open>
  The library's \<^verbatim>\<open>max(a, b)\<close> and \<^verbatim>\<open>min(a, b)\<close> of two scalars are \<^verbatim>\<open>(a > b) ? a : b\<close> and
  \<^verbatim>\<open>(a < b) ? a : b\<close>; \<^verbatim>\<open>mag\<close> is the absolute value; \<^verbatim>\<open>pos(s)\<close> is \<^verbatim>\<open>(s >= 0) ? 1 : 0\<close>.
\<close>

definition max_scalar :: "doubleScalar \<Rightarrow> doubleScalar \<Rightarrow> doubleScalar" where
  "max_scalar a b = (if a > b then a else b)"

definition min_scalar :: "doubleScalar \<Rightarrow> doubleScalar \<Rightarrow> doubleScalar" where
  "min_scalar a b = (if a < b then a else b)"

fun mag :: "doubleScalar \<Rightarrow> doubleScalar" where
  "mag NaN = NaN"
| "mag NInf = PInf"
| "mag (Fin x) = Fin \<bar>x\<bar>"
| "mag PInf = PInf"

definition pos :: "doubleScalar \<Rightarrow> doubleScalar" where
  "pos s = (if s \<ge> Fin 0 then Fin 1 else Fin 0)"

text \<open>
  \<^verbatim>\<open>exp\<close>, \<^verbatim>\<open>log\<close>, and \<^verbatim>\<open>pow\<close> as the loops use it: with the exponents 2 and 3, where it is
  the repeated product, and with the exponents 0.5 and 0.204, positive and not whole, where a
  negative finite base has no value.
\<close>

fun exp_scalar :: "doubleScalar \<Rightarrow> doubleScalar" where
  "exp_scalar NaN = NaN"
| "exp_scalar NInf = Fin 0"
| "exp_scalar (Fin x) = Fin (exp x)"
| "exp_scalar PInf = PInf"

fun log_scalar :: "doubleScalar \<Rightarrow> doubleScalar" where
  "log_scalar NaN = NaN"
| "log_scalar NInf = NaN"
| "log_scalar (Fin x) = (if x < 0 then NaN else if x = 0 then NInf else Fin (ln x))"
| "log_scalar PInf = PInf"

primrec pow_nat :: "doubleScalar \<Rightarrow> nat \<Rightarrow> doubleScalar" where
  "pow_nat a 0 = Fin 1"
| "pow_nat a (Suc n) = pow_nat a n * a"

fun pow_frac :: "doubleScalar \<Rightarrow> real \<Rightarrow> doubleScalar" where
  "pow_frac NaN y = NaN"
| "pow_frac NInf y = PInf"
| "pow_frac (Fin x) y = (if x < 0 then NaN else Fin (x powr y))"
| "pow_frac PInf y = PInf"

text \<open>
  \<^verbatim>\<open>gMax\<close> and \<^verbatim>\<open>gMin\<close> of a field on one process: the library starts from the first element
  and folds \<^verbatim>\<open>Max = max(f[i], Max)\<close>, \<^verbatim>\<open>Min = min(f[i], Min)\<close> over all of them; an empty field
  gives \<open>-VGREAT\<close> and \<open>VGREAT\<close>. The same fold is the \<^verbatim>\<open>max\<close> and \<^verbatim>\<open>min\<close> of a field.
\<close>

type_synonym doubleField = "doubleScalar list"

definition gMax :: "real \<Rightarrow> doubleField \<Rightarrow> doubleScalar" where
  "gMax VGREAT f = (if f = [] then Fin (- VGREAT) else fold (\<lambda>x Max. max_scalar x Max) f (hd f))"

definition gMin :: "real \<Rightarrow> doubleField \<Rightarrow> doubleScalar" where
  "gMin VGREAT f = (if f = [] then Fin VGREAT else fold (\<lambda>x Min. min_scalar x Min) f (hd f))"

subsection \<open>The leaf-temperature iteration (simplifiedVegetation)\<close>

text \<open>
  The fields of one cell that the iteration reads (\<open>cmagU\<close> is \<^verbatim>\<open>magU\<close> after \<^verbatim>\<open>bound\<close>), and
  the coefficients of the model, read from the dictionaries.
\<close>

record vegCell =
  cLAD :: doubleScalar
  cT :: doubleScalar
  cq :: doubleScalar
  cmagU :: doubleScalar
  cRn :: doubleScalar
  cRg :: doubleScalar

record vegCoeffs =
  vC :: real
  vl :: real
  vrsMin :: real
  vnEvapSides :: real
  vrhoa :: real
  vcpa :: real
  vlambda :: real
  Tl_relax :: real
  Tl_residualControl :: real
  vSMALL :: real
  vVGREAT :: real

text \<open>\<^verbatim>\<open>calc_evsat\<close>: the saturation vapour pressure (ASHRAE).\<close>

definition calc_evsat :: "doubleScalar \<Rightarrow> doubleScalar" where
  "calc_evsat T = exp_scalar (Fin (- 5800.2206) / T + Fin 1.3914993 - Fin 0.048640239 * T
                       + Fin 0.000041764768 * pow_nat T 2
                       - Fin 0.000000014452093 * pow_nat T 3 + Fin 6.5459673 * log_scalar T)"

text \<open>\<^verbatim>\<open>resistance\<close>: the aerodynamic and the stomatal resistance of a vegetated cell.\<close>

definition ra_of :: "vegCoeffs \<Rightarrow> vegCell \<Rightarrow> doubleScalar" where
  "ra_of K c = Fin (vC K) * pow_frac (Fin (vl K) / cmagU c) 0.5"

definition rs_of :: "vegCoeffs \<Rightarrow> vegCell \<Rightarrow> doubleScalar" where
  "rs_of K c =
     (let ev = Fin 101325 * cq c / (Fin 0.621945 + cq c);
          evsat = calc_evsat (cT c);
          VPD = evsat - ev;
          f1 = Fin 7.119 * exp_scalar (Fin (- 0.05004) * cRg c)
               + Fin 0.6174 * exp_scalar (Fin 0.0006336 * cRg c);
          f2 = (if VPD < Fin 0 then Fin 0.4372 else Fin 0.4372 * pow_frac (VPD + Fin 1) 0.204)
      in Fin (vrsMin K) * f1 * f2)"

text \<open>
  The new leaf temperature of a vegetated cell before it is bounded, from the current leaf
  temperature \<open>Tl\<close>: saturation humidity, transpiration, latent heat, energy balance.
\<close>

definition new_Tl_raw :: "vegCoeffs \<Rightarrow> vegCell \<Rightarrow> doubleScalar \<Rightarrow> doubleScalar" where
  "new_Tl_raw K c Tl =
     (let ra = ra_of K c;
          rs = rs_of K c;
          evsat = calc_evsat Tl;
          qsat = Fin 0.621945 * (evsat / (Fin 101325 - evsat));
          E = pos (cRg c - Fin (vSMALL K)) * Fin (vnEvapSides K) * cLAD c * Fin (vrhoa K)
              * (qsat - cq c) / (ra + rs);
          Qlat = Fin (vlambda K) * E
      in cT c + (cRn c - Qlat) * (ra / (Fin 2 * Fin (vrhoa K) * Fin (vcpa K) * cLAD c)))"

text \<open>
  The loop over the cells within one iteration. Only cells with \<^verbatim>\<open>LAD_[cellI] > 10*SMALL\<close> are
  touched; a value below \<^verbatim>\<open>Tl_min = 250\<close> or above \<^verbatim>\<open>Tl_max = 400\<close> raises the flag
  \<^verbatim>\<open>boundTl\<close> and is replaced by \<^verbatim>\<open>max(min(new_Tl, Tl_max), Tl_min)\<close>.
\<close>

definition Tl_min :: doubleScalar where "Tl_min = Fin 250"
definition Tl_max :: doubleScalar where "Tl_max = Fin 400"

definition vegCellStep ::
  "vegCoeffs \<Rightarrow> vegCell list \<Rightarrow> doubleField \<Rightarrow> nat \<Rightarrow> doubleField \<times> bool \<Rightarrow> doubleField \<times> bool" where
  "vegCellStep K cells Tl cellI = (\<lambda>(new_Tl, boundTl).
     if cLAD (cells ! cellI) > Fin (10 * vSMALL K)
     then (let v = new_Tl_raw K (cells ! cellI) (Tl ! cellI)
           in if v < Tl_min \<or> v > Tl_max
              then (new_Tl[cellI := max_scalar (min_scalar v Tl_max) Tl_min], True)
              else (new_Tl[cellI := v], boundTl))
     else (new_Tl, boundTl))"

definition vegCellPass ::
  "vegCoeffs \<Rightarrow> vegCell list \<Rightarrow> doubleField \<Rightarrow> doubleField \<Rightarrow> doubleField \<times> bool" where
  "vegCellPass K cells Tl new_Tl =
     fold (vegCellStep K cells Tl) [0..<length cells] (new_Tl, False)"

text \<open>The lines the iterations print.\<close>

datatype iterMsg = BoundingWarning | MaxTemp doubleScalar nat

text \<open>
  One pass of the body of the \<^verbatim>\<open>for\<close> loop: the cells, the warning, the relative
  \<open>L\<^sub>\<infinity>\<close> error, the relaxed update of \<^verbatim>\<open>Tl_\<close>. The result is the new \<^verbatim>\<open>Tl_\<close> and \<^verbatim>\<open>new_Tl\<close>, the
  lines printed and \<^verbatim>\<open>maxRelError\<close>.
\<close>

definition vegIteration ::
  "vegCoeffs \<Rightarrow> vegCell list \<Rightarrow> nat \<Rightarrow> doubleField \<times> doubleField
    \<Rightarrow> (doubleField \<times> doubleField) \<times> iterMsg list \<times> doubleScalar" where
  "vegIteration K cells i = (\<lambda>(Tl, new_Tl).
     case vegCellPass K cells Tl new_Tl of (new_Tl', boundTl) \<Rightarrow>
       let msgs = (if boundTl then [BoundingWarning] else []) @ [MaxTemp (gMax (vVGREAT K) new_Tl') i];
           maxError = gMax (vVGREAT K) (map2 (\<lambda>a b. mag (a - b)) new_Tl' Tl);
           maxRelError = maxError / gMax (vVGREAT K) (map mag new_Tl');
           Tl' = map2 (\<lambda>a b. Fin (1 - Tl_relax K) * a + Fin (Tl_relax K) * b) Tl new_Tl'
       in ((Tl', new_Tl'), msgs, maxRelError))"




text \<open>
  What the passes of the loop compute one after the other, for stating what the loop returns:
  the fields after \<open>k\<close> passes, and the lines and the relative error of pass \<open>k\<close>.
\<close>

primrec vegState :: "vegCoeffs \<Rightarrow> vegCell list \<Rightarrow> doubleField \<Rightarrow> nat \<Rightarrow> doubleField \<times> doubleField" where
  "vegState K cells Tl 0 = (Tl, Tl)"
| "vegState K cells Tl (Suc k) = fst (vegIteration K cells (Suc k) (vegState K cells Tl k))"

definition vegLines :: "vegCoeffs \<Rightarrow> vegCell list \<Rightarrow> doubleField \<Rightarrow> nat \<Rightarrow> iterMsg list" where
  "vegLines K cells Tl k = fst (snd (vegIteration K cells k (vegState K cells Tl (k - 1))))"


subsection \<open>The grass-temperature iteration (simpleGrass)\<close>

text \<open>The fields of one face of a grass patch, and the coefficients read in \<^verbatim>\<open>initialise\<close>.\<close>

record grassFace =
  fTc :: doubleScalar
  fwc :: doubleScalar
  fTs :: doubleScalar
  fqr :: doubleScalar
  fqs :: doubleScalar
  fmagU :: doubleScalar

record grassCoeffs =
  gnEvapSides :: real
  gbeta :: real
  gLAI :: real
  gl :: real
  galbedoSoil :: real
  gra :: real
  grs :: real
  Tg_relax :: real
  Tg_residualControl :: real
  gSMALL :: real
  gVGREAT :: real

text \<open>
  The new grass temperature of a face before it is bounded. The constants are those of
  \<^verbatim>\<open>initialise\<close>: \<^verbatim>\<open>p_ = 101325\<close>, \<^verbatim>\<open>rhoa = 1.225\<close>, \<^verbatim>\<open>cpa = 1003.5\<close>, \<^verbatim>\<open>Ra = 287.042\<close>,
  \<^verbatim>\<open>Rv = 461.524\<close>; \<^verbatim>\<open>calc_pvsat\<close> is the formula of \<^verbatim>\<open>calc_evsat\<close>.
\<close>

definition Tg_new_raw :: "grassCoeffs \<Rightarrow> grassFace \<Rightarrow> doubleScalar \<Rightarrow> doubleScalar" where
  "Tg_new_raw G f Tg =
     (let ra = (if gra G < 0
                then Fin 131.035 * pow_frac (Fin (gl G) / max_scalar (fmagU f) (Fin (gSMALL G))) 0.5
                else Fin (gra G));
          h_ch = Fin (2 * 1.225 * 1003.5) / ra;
          h_cm = Fin (1.225 * 287.042) / (Fin (101325 * 461.524) * (ra + Fin (grs G)));
          pv = Fin 101325 * fwc f / (Fin (287.042 / 461.524) + fwc f);
          Qs_abs = fqs f * Fin (1 - exp (- gbeta G * gLAI G) + galbedoSoil G * exp (- gbeta G * gLAI G));
          pvsat = calc_evsat Tg;
          E = pos (Qs_abs - Fin (gSMALL G)) * Fin (gnEvapSides G) * h_cm * (pvsat - pv);
          Qlat = Fin 2500000 * E * Fin (gLAI G);
          Qr2surrounding = fqr f;
          Qr2substrate = Fin 6 * (fTs f - Tg)
      in fTc f + (Qr2surrounding + Qr2substrate + Qs_abs - Qlat) / (h_ch * Fin (gLAI G)))"

definition Tg_min :: doubleScalar where "Tg_min = Fin 250"
definition Tg_max :: doubleScalar where "Tg_max = Fin 400"

text \<open>
  One pass of the loop body up to the convergence check: the initialisation of a zero field in
  the first pass, the new temperatures, the bounding of the whole field when its minimum or its
  maximum is out of range, the warning, the relative error. The result is the (possibly
  initialised) \<open>Tg\<close>, the bounded \<open>Tg_new\<close>, the lines printed and \<^verbatim>\<open>maxRelError\<close>.
\<close>

definition grassIteration ::
  "grassCoeffs \<Rightarrow> grassFace list \<Rightarrow> nat \<Rightarrow> doubleField
    \<Rightarrow> doubleField \<times> doubleField \<times> iterMsg list \<times> doubleScalar" where
  "grassIteration G faces i Tg =
     (let Tg0 = (if i = 1 \<and> gMin (gVGREAT G) Tg < Fin (gSMALL G) then map fTc faces else Tg);
          Tg_new = map2 (Tg_new_raw G) faces Tg0;
          boundTg = (gMin (gVGREAT G) Tg_new < Tg_min \<or> gMax (gVGREAT G) Tg_new > Tg_max);
          Tg_new' = (if boundTg then map (\<lambda>v. max_scalar (min_scalar v Tg_max) Tg_min) Tg_new
                     else Tg_new);
          msgs = (if boundTg then [BoundingWarning] else []) @ [MaxTemp (gMax (gVGREAT G) Tg_new') i];
          maxError = gMax (gVGREAT G) (map2 (\<lambda>a b. mag (a - b)) Tg_new' Tg0);
          maxRelError = maxError / gMax (gVGREAT G) (map mag Tg_new')
      in (Tg0, Tg_new', msgs, maxRelError))"







text \<open>
  A vegetated cell in hot air at night with no aerodynamic resistance, so that its new leaf
  temperature is the air temperature, 500 K, whatever the leaf temperature; with the relaxation
  factor 0 the leaf temperature stays where it starts. And a dry grass face at night over a hot
  substrate: from 300 K its new temperature is 480 K, from 350 K it is 180 K.
\<close>

definition hotCell :: vegCell where
  "hotCell = \<lparr>cLAD = Fin 1, cT = Fin 500, cq = Fin 0, cmagU = Fin 1, cRn = Fin 0, cRg = Fin 0\<rparr>"

definition stillCoeffs :: vegCoeffs where
  "stillCoeffs = \<lparr>vC = 0, vl = 1, vrsMin = 1, vnEvapSides = 1, vrhoa = 1, vcpa = 1, vlambda = 1,
     Tl_relax = 0, Tl_residualControl = 1 / 10 ^ 8, vSMALL = 1 / 10 ^ 15, vVGREAT = 10 ^ 300\<rparr>"



section \<open>Verification\<close>

subsection \<open>Matrix loops\<close>

lemma matSet_nth:
  "i < length M \<Longrightarrow> j < length (M ! i) \<Longrightarrow>
   matSet i j v M ! i' ! j' = (if i' = i \<and> j' = j then v else M ! i' ! j')"
  by (auto simp: matSet_def nth_list_update)

lemma matSet_square: "squareOf n M \<Longrightarrow> squareOf n (matSet i j v M)"
proof -
  assume sq: "squareOf n M"
  have "length (matSet i j v M ! k) = n" if "k < n" for k
  proof (cases "k = i")
    case True
    with that sq show ?thesis by (simp add: squareOf_def matSet_def list_all_length)
  next
    case False
    with that sq show ?thesis by (simp add: squareOf_def matSet_def list_all_length)
  qed
  with sq show ?thesis by (simp add: squareOf_def list_all_length matSet_def)
qed

lemma squareOf_zero: "squareOf n (zeroMatrix n)"
  by (simp add: squareOf_def zeroMatrix_def list_all_length)

text \<open>A loop over \<open>j\<close> that assigns \<open>g j\<close> to the entry \<open>(i, j)\<close>.\<close>

lemma fold_row_square:
  "squareOf n M \<Longrightarrow> squareOf n (fold (\<lambda>j. matSet i j (g j)) js M)"
  by (induction js arbitrary: M) (auto simp: matSet_square)

lemma fold_row_nth:
  "squareOf n M \<Longrightarrow> i < n \<Longrightarrow> \<forall>j\<in>set js. j < n \<Longrightarrow>
   fold (\<lambda>j. matSet i j (g j)) js M ! i' ! j' =
     (if i' = i \<and> j' \<in> set js then g j' else M ! i' ! j')"
proof (induction js arbitrary: M)
  case Nil
  then show ?case by simp
next
  case (Cons a js)
  have sq: "squareOf n (matSet i a (g a) M)" using Cons.prems(1) by (rule matSet_square)
  have len: "i < length M" "a < length (M ! i)"
    using Cons.prems by (auto simp: squareOf_def list_all_length)
  show ?case
    using Cons.IH[OF sq Cons.prems(2)] Cons.prems(3) matSet_nth[OF len]
    by auto
qed

lemma fold_mat_square:
  "squareOf n M \<Longrightarrow> squareOf n (fold (\<lambda>i. fold (\<lambda>j. matSet i j (g i j)) js) is M)"
  by (induction "is" arbitrary: M) (auto simp: fold_row_square)

lemma fold_mat_nth:
  "squareOf n M \<Longrightarrow> \<forall>i\<in>set is. i < n \<Longrightarrow> \<forall>j\<in>set js. j < n \<Longrightarrow>
   fold (\<lambda>i. fold (\<lambda>j. matSet i j (g i j)) js) is M ! i' ! j' =
     (if i' \<in> set is \<and> j' \<in> set js then g i' j' else M ! i' ! j')"
proof (induction "is" arbitrary: M)
  case Nil
  then show ?case by simp
next
  case (Cons a "is")
  have sq: "squareOf n (fold (\<lambda>j. matSet a j (g a j)) js M)"
    using Cons.prems(1) by (rule fold_row_square)
  have a: "a < n" using Cons.prems(2) by simp
  have rest: "\<forall>i\<in>set is. i < n" using Cons.prems(2) by simp
  show ?case
    using Cons.IH[OF sq rest Cons.prems(3)] fold_row_nth[OF Cons.prems(1) a Cons.prems(3)]
    by auto
qed

subsection \<open>C1: entries of the coefficient matrices\<close>

lemma lwConstBody_eq: "lwConstBody E F i j = matSet i j (specEntry (1 / (E ! j)) F i j)"
  by (rule ext) (simp add: lwConstBody_def specEntry_def Let_def)

lemma lwConst_entry:
  "squareOf n CLU \<Longrightarrow> i < n \<Longrightarrow> j < n \<Longrightarrow>
   lwConstAssemble n E F CLU ! i ! j = specEntry (1 / (E ! j)) F i j"
  unfolding lwConstAssemble_def lwConstBody_eq
  by (subst fold_mat_nth[where n = n]) auto

lemma fst_fold_lwVarBody:
  "fst (fold (lwVarBody E F T4 qrExt sigma i) js (C, q)) =
   fold (\<lambda>j. matSet i j (specEntry (1 / (E ! j)) F i j)) js C"
  by (induction js arbitrary: C q) (auto simp: lwVarBody_def specEntry_def Let_def)

lemma fst_fold_fold_lwVarBody:
  "fst (fold (\<lambda>i. fold (lwVarBody E F T4 qrExt sigma i) js) is Cq) =
   fold (\<lambda>i. fold (\<lambda>j. matSet i j (specEntry (1 / (E ! j)) F i j)) js) is (fst Cq)"
proof (induction "is" arbitrary: Cq)
  case Nil
  then show ?case by simp
next
  case (Cons a "is")
  obtain C q where Cq: "Cq = (C, q)" by (cases Cq)
  show ?case by (simp add: Cons.IH Cq fst_fold_lwVarBody)
qed

lemma lwVar_entry:
  "i < n \<Longrightarrow> j < n \<Longrightarrow>
   fst (lwVarAssemble n E F T4 qrExt sigma) ! i ! j = specEntry (1 / (E ! j)) F i j"
  unfolding lwVarAssemble_def fst_fold_fold_lwVarBody
  by (subst fold_mat_nth[where n = n]) (auto simp: squareOf_zero)

text \<open>The short-wave entry as the source writes it.\<close>

lemma swEntry_spec:
  "a \<noteq> 1 \<Longrightarrow> (if i = j then (1 / (1 - a)) - (a / (1 - a)) * f else - (a / (1 - a)) * f)
     = (if i = j then 1 / (1 - a) - (1 / (1 - a) - 1) * f else (1 - 1 / (1 - a)) * f)"
  for a f :: real
proof -
  assume "a \<noteq> 1"
  then have "1 / (1 - a) - 1 = a / (1 - a)" by (simp add: field_simps)
  then show ?thesis by (simp add: algebra_simps)
qed

lemma swConstBody_eq:
  "swConstBody A F i j =
   matSet i j (if i = j then (1 / (1 - A ! j)) - (A ! j / (1 - A ! j)) * (F ! i ! j)
               else - (A ! j / (1 - A ! j)) * (F ! i ! j))"
  by (rule ext) (simp add: swConstBody_def)

lemma swConst_entry:
  "squareOf n CLU \<Longrightarrow> i < n \<Longrightarrow> j < n \<Longrightarrow> A ! j \<noteq> 1 \<Longrightarrow>
   swConstAssemble n A F CLU ! i ! j = specEntry (1 / (1 - A ! j)) F i j"
  unfolding swConstAssemble_def swConstBody_eq specEntry_def
  by (subst fold_mat_nth[where n = n]) (auto simp: swEntry_spec)

lemma fst_fold_swVarBody:
  "fst (fold (swVarBody A F skyLo sunLo qsExt i) js (C, q)) =
   fold (\<lambda>j. matSet i j (if i = j then (1 / (1 - A ! j)) - (A ! j / (1 - A ! j)) * (F ! i ! j)
                          else - (A ! j / (1 - A ! j)) * (F ! i ! j))) js C"
  by (induction js arbitrary: C q) (auto simp: swVarBody_def Let_def)

lemma fst_fold_fold_swVarBody:
  "fst (fold (\<lambda>i. fold (swVarBody A F skyLo sunLo qsExt i) js) is Cq) =
   fold (\<lambda>i. fold (\<lambda>j. matSet i j
       (if i = j then (1 / (1 - A ! j)) - (A ! j / (1 - A ! j)) * (F ! i ! j)
        else - (A ! j / (1 - A ! j)) * (F ! i ! j))) js) is (fst Cq)"
proof (induction "is" arbitrary: Cq)
  case Nil
  then show ?case by simp
next
  case (Cons a "is")
  obtain C q where Cq: "Cq = (C, q)" by (cases Cq)
  show ?case by (simp add: Cons.IH Cq fst_fold_swVarBody)
qed

lemma swVar_entry:
  "i < n \<Longrightarrow> j < n \<Longrightarrow> A ! j \<noteq> 1 \<Longrightarrow>
   fst (swVarAssemble n A F skyLo sunLo qsExt) ! i ! j = specEntry (1 / (1 - A ! j)) F i j"
  unfolding swVarAssemble_def fst_fold_fold_swVarBody specEntry_def
  by (subst fold_mat_nth[where n = n]) (auto simp: squareOf_zero swEntry_spec)

text \<open>
  C1. For all global element indices \<open>i, j\<close> below the element count, the long-wave
  coefficient matrix built from the view factors \<open>F\<close> and the emissivities \<open>E\<close> has the entry
  \<open>1/E[j] - (1/E[j] - 1) F[i][j]\<close> on the diagonal and \<open>(1 - 1/E[j]) F[i][j]\<close> off it, in the
  variable-emissivity and in the constant-emissivity path; the short-wave matrix built with
  the albedos \<open>A\<close> has the same entries with \<open>1/(1 - A[j])\<close> in the place of \<open>1/E[j]\<close>
  (an albedo of exactly 1 divides by zero in the source as in the specification and is left out).
\<close>

theorem C1_coefficient_matrix_entries:
  assumes "i < n" and "j < n"
  shows "fst (lwVarAssemble n E F T4 qrExt sigma) ! i ! j = specEntry (1 / (E ! j)) F i j
       \<and> lwConstAssemble n E F (zeroMatrix n) ! i ! j = specEntry (1 / (E ! j)) F i j
       \<and> (A ! j \<noteq> 1 \<longrightarrow>
            fst (swVarAssemble n A F skyLo sunLo qsExt) ! i ! j = specEntry (1 / (1 - A ! j)) F i j
          \<and> swConstAssemble n A F (zeroMatrix n) ! i ! j = specEntry (1 / (1 - A ! j)) F i j)"
  using assms
  by (simp add: lwVar_entry lwConst_entry swVar_entry swConst_entry squareOf_zero)

theorem C1_coefficient_matrix_entries_witness:
  "fst (lwVarAssemble 2 [1/2, 1/4] [[0, 1], [1/2, 1/2]] [1, 1] [0, 0] 1) ! 1 ! 0 = - 1 / 2
 \<and> lwConstAssemble 2 [1/2, 1/4] [[0, 1], [1/2, 1/2]] (zeroMatrix 2) ! 1 ! 1 = 5 / 2
 \<and> fst (swVarAssemble 2 [1/2, 1/5] [[0, 1], [1/2, 1/2]] [1, 1] [1, 1] [0, 0]) ! 0 ! 1 = - 1 / 4
 \<and> swConstAssemble 2 [1/2, 1/5] [[0, 1], [1/2, 1/2]] (zeroMatrix 2) ! 0 ! 0 = 2"
  using C1_coefficient_matrix_entries[of 1 2 0 "[1/2, 1/4]" "[[0, 1], [1/2, 1/2]]" "[1, 1]" "[0, 0]" 1
          "[1/2, 1/5]" "[1, 1]" "[1, 1]" "[0, 0]"]
        C1_coefficient_matrix_entries[of 1 2 1 "[1/2, 1/4]" "[[0, 1], [1/2, 1/2]]" "[1, 1]" "[0, 0]" 1
          "[1/2, 1/5]" "[1, 1]" "[1, 1]" "[0, 0]"]
        C1_coefficient_matrix_entries[of 0 2 1 "[1/2, 1/4]" "[[0, 1], [1/2, 1/2]]" "[1, 1]" "[0, 0]" 1
          "[1/2, 1/5]" "[1, 1]" "[1, 1]" "[0, 0]"]
        C1_coefficient_matrix_entries[of 0 2 0 "[1/2, 1/4]" "[[0, 1], [1/2, 1/2]]" "[1, 1]" "[0, 0]" 1
          "[1/2, 1/5]" "[1, 1]" "[1, 1]" "[0, 0]"]
  by (simp add: specEntry_def)

subsection \<open>C2: smoothing\<close>

lemma rowSum_sum: "rowSum n M i = (\<Sum>j<n. M ! i ! j)"
proof -
  have "fold (\<lambda>j s. s + f j) [0..<n] a = a + (\<Sum>j<n. f j)" for f :: "nat \<Rightarrow> real" and a
    by (induction n arbitrary: a) (simp_all add: algebra_simps)
  then show ?thesis by (simp add: rowSum_def)
qed

lemma rowSum_cong: "M' ! i = M ! i \<Longrightarrow> rowSum n M' i = rowSum n M i"
  by (simp add: rowSum_def)

lemma matSet_other_row: "i' \<noteq> i \<Longrightarrow> matSet i j v M ! i' = M ! i'"
  by (simp add: matSet_def)

lemma fold_scale_square:
  "squareOf n M \<Longrightarrow> squareOf n (fold (\<lambda>j M'. matSet i j (M' ! i ! j * c) M') js M)"
  by (induction js arbitrary: M) (auto simp: matSet_square)

lemma fold_scale_other_row:
  "i' \<noteq> i \<Longrightarrow> fold (\<lambda>j M'. matSet i j (M' ! i ! j * c) M') js M ! i' = M ! i'"
  by (induction js arbitrary: M) (auto simp: matSet_other_row)

lemma fold_scale_nth:
  "squareOf n M \<Longrightarrow> i < n \<Longrightarrow> \<forall>j\<in>set js. j < n \<Longrightarrow> distinct js \<Longrightarrow>
   fold (\<lambda>j M'. matSet i j (M' ! i ! j * c) M') js M ! i ! j' =
     (if j' \<in> set js then M ! i ! j' * c else M ! i ! j')"
proof (induction js arbitrary: M)
  case Nil
  then show ?case by simp
next
  case (Cons a js)
  let ?M1 = "matSet i a (M ! i ! a * c) M"
  have sq: "squareOf n ?M1" using Cons.prems(1) by (rule matSet_square)
  have len: "i < length M" "a < length (M ! i)"
    using Cons.prems by (auto simp: squareOf_def list_all_length)
  have "fold (\<lambda>j M'. matSet i j (M' ! i ! j * c) M') js ?M1 ! i ! j' =
     (if j' \<in> set js then ?M1 ! i ! j' * c else ?M1 ! i ! j')"
    using Cons.IH[OF sq Cons.prems(2)] Cons.prems(3,4) by simp
  then show ?case
    using Cons.prems(4) matSet_nth[OF len, of "M ! i ! a * c" i j'] by auto
qed

lemma smoothRowSky_square: "squareOf n M \<Longrightarrow> squareOf n (smoothRowSky n i M)"
  by (simp add: smoothRowSky_def Let_def fold_scale_square)

lemma smoothRowSky_other: "i' \<noteq> i \<Longrightarrow> smoothRowSky n i M ! i' = M ! i'"
  by (simp add: smoothRowSky_def Let_def fold_scale_other_row)

lemma smoothRowSky_nth:
  "squareOf n M \<Longrightarrow> i < n \<Longrightarrow> j < n \<Longrightarrow>
   smoothRowSky n i M ! i ! j = M ! i ! j * (1 - (rowSum n M i - 1) / (rowSum n M i + 1 / 1000))"
  unfolding smoothRowSky_def Let_def
  by (subst fold_scale_nth[where n = n]) auto

lemma smoothRowDD_square: "squareOf n M \<Longrightarrow> squareOf n (smoothRowDD n i M)"
  by (simp add: smoothRowDD_def Let_def fold_scale_square)

lemma smoothRowDD_other: "i' \<noteq> i \<Longrightarrow> smoothRowDD n i M ! i' = M ! i'"
  by (simp add: smoothRowDD_def Let_def fold_scale_other_row)

lemma smoothRowDD_nth:
  "squareOf n M \<Longrightarrow> i < n \<Longrightarrow> j < n \<Longrightarrow>
   smoothRowDD n i M ! i ! j = M ! i ! j * specFactor (rowSum n M i)"
  unfolding smoothRowDD_def Let_def specFactor_def
  by (subst fold_scale_nth[where n = n]) auto

text \<open>The outer loop, for any row pass that touches its own row only.\<close>

lemma fold_rows_nth:
  assumes other: "\<And>i i' M. i' \<noteq> i \<Longrightarrow> pass i M ! i' = M ! i'"
    and own: "\<And>i j M. squareOf n M \<Longrightarrow> i < n \<Longrightarrow> j < n \<Longrightarrow> pass i M ! i ! j = M ! i ! j * fac (rowSum n M i)"
    and sq: "\<And>i M. squareOf n M \<Longrightarrow> squareOf n (pass i M)"
  shows "squareOf n M \<Longrightarrow> \<forall>i\<in>set is. i < n \<Longrightarrow> distinct is \<Longrightarrow> j < n \<Longrightarrow>
     fold pass is M ! i' ! j =
       (if i' \<in> set is then M ! i' ! j * fac (rowSum n M i') else M ! i' ! j)"
proof (induction "is" arbitrary: M)
  case Nil
  then show ?case by simp
next
  case (Cons a "is")
  have sqa: "squareOf n (pass a M)" using Cons.prems(1) by (rule sq)
  have IH: "fold pass is (pass a M) ! i' ! j =
       (if i' \<in> set is then pass a M ! i' ! j * fac (rowSum n (pass a M) i') else pass a M ! i' ! j)"
    using Cons.IH[OF sqa] Cons.prems by simp
  show ?case
  proof (cases "i' = a")
    case True
    then have "i' \<notin> set is" using Cons.prems(3) by simp
    with IH True own[OF Cons.prems(1), of a j] Cons.prems(2,4) show ?thesis by simp
  next
    case False
    then have row: "pass a M ! i' = M ! i'" by (rule other)
    then have "rowSum n (pass a M) i' = rowSum n M i'" by (rule rowSum_cong)
    with IH False row show ?thesis by simp
  qed
qed

lemma smoothSky_nth:
  "squareOf n F \<Longrightarrow> i < n \<Longrightarrow> j < n \<Longrightarrow>
   smoothSky True n F ! i ! j = F ! i ! j * (1 - (rowSum n F i - 1) / (rowSum n F i + 1 / 1000))"
proof -
  assume a: "squareOf n F" "i < n" "j < n"
  have "fold (smoothRowSky n) [0..<n] F ! i ! j =
      (if i \<in> set [0..<n] then F ! i ! j * (1 - (rowSum n F i - 1) / (rowSum n F i + 1 / 1000))
       else F ! i ! j)"
    by (rule fold_rows_nth[where n = n and fac = "\<lambda>s. 1 - (s - 1) / (s + 1 / 1000)"])
       (simp_all add: smoothRowSky_other smoothRowSky_nth smoothRowSky_square a)
  with a show ?thesis by (simp add: smoothSky_def)
qed

lemma smoothDD_nth:
  "squareOf n F \<Longrightarrow> i < n \<Longrightarrow> j < n \<Longrightarrow>
   smoothDD True n F ! i ! j = F ! i ! j * specFactor (rowSum n F i)"
proof -
  assume a: "squareOf n F" "i < n" "j < n"
  have "fold (smoothRowDD n) [0..<n] F ! i ! j =
      (if i \<in> set [0..<n] then F ! i ! j * specFactor (rowSum n F i) else F ! i ! j)"
    by (rule fold_rows_nth[where n = n and fac = specFactor])
       (simp_all add: smoothRowDD_other smoothRowDD_nth smoothRowDD_square a)
  with a show ?thesis by (simp add: smoothDD_def)
qed

lemma rowSum_scaled:
  "(\<And>j. j < n \<Longrightarrow> M' ! i ! j = M ! i ! j * c) \<Longrightarrow> rowSum n M' i = rowSum n M i * c"
  by (simp add: rowSum_sum sum_distrib_right)

lemma smoothDD_rowSum:
  "squareOf n F \<Longrightarrow> i < n \<Longrightarrow> rowSum n F i \<noteq> 0 \<Longrightarrow> rowSum n (smoothDD True n F) i = 1"
proof -
  assume a: "squareOf n F" "i < n" "rowSum n F i \<noteq> 0"
  have "rowSum n (smoothDD True n F) i = rowSum n F i * specFactor (rowSum n F i)"
    by (rule rowSum_scaled) (simp add: smoothDD_nth a)
  also have "\<dots> = 1" using a(3) by (simp add: specFactor_def field_simps)
  finally show ?thesis .
qed

lemma smoothSky_rowSum:
  "squareOf n F \<Longrightarrow> i < n \<Longrightarrow> rowSum n F i \<noteq> - (1 / 1000) \<Longrightarrow>
   rowSum n (smoothSky True n F) i = (1001 / 1000) * rowSum n F i / (rowSum n F i + 1 / 1000)"
proof -
  assume a: "squareOf n F" "i < n" "rowSum n F i \<noteq> - (1 / 1000)"
  have "rowSum n (smoothSky True n F) i
      = rowSum n F i * (1 - (rowSum n F i - 1) / (rowSum n F i + 1 / 1000))"
    by (rule rowSum_scaled) (simp add: smoothSky_nth a)
  also have "\<dots> = (1001 / 1000) * rowSum n F i / (rowSum n F i + 1 / 1000)"
    using a(3) by (simp add: field_simps)
  finally show ?thesis .
qed

lemma sky_bound:
  fixes s :: real
  assumes "1 / 2 \<le> s"
  shows "\<bar>(1001 / 1000) * s / (s + 1 / 1000) - 1\<bar> < 1 / 1000"
proof -
  have pos: "0 < s + 1 / 1000" using assms by simp
  have eq: "(1001 / 1000) * s / (s + 1 / 1000) - 1 = (s - 1) / (1000 * s + 1)"
    using pos by (simp add: field_simps)
  have d: "0 < 1000 * s + 1" using assms by simp
  have up: "(s - 1) / (1000 * s + 1) < 1 / 1000"
    using d by (simp add: pos_divide_less_eq)
  have lo: "- (1 / 1000) < (s - 1) / (1000 * s + 1)"
    using d assms by (simp add: pos_less_divide_eq field_simps)
  show ?thesis unfolding eq using up lo by linarith
qed

text \<open>
  C2, as stated, fails for the long-wave model: \<^verbatim>\<open>viewFactorSky::initialise\<close> divides by
  \<^verbatim>\<open>sumF + 0.001\<close>. A one-element matrix whose only row sums to \<open>0.001\<close> is not scaled by
  the stated factor, and its row sum after smoothing is \<open>0.5005\<close>, not 1.
\<close>

theorem C2_smoothing_counterexample:
  "smoothSky True 1 [[1 / 1000]] ! 0 ! 0
      \<noteq> [[1 / 1000]] ! 0 ! 0 * specFactor (rowSum 1 [[1 / 1000]] 0)
   \<and> rowSum 1 (smoothSky True 1 [[1 / 1000]]) 0 = 1001 / 2000"
  by (simp add: smoothSky_def smoothRowSky_def rowSum_def matSet_def specFactor_def)

text \<open>
  C2, amended. With smoothing enabled, every entry of row \<open>i\<close> is scaled by one factor computed
  from the row's sum before scaling. In \<^verbatim>\<open>directAndDiffuse\<close> the factor is
  \<open>1 - (rowSum - 1)/rowSum\<close> and the row sums to 1 afterwards whenever \<open>rowSum\<close> is not 0. In
  \<^verbatim>\<open>viewFactorSky\<close> the factor is \<open>1 - (rowSum - 1)/(rowSum + 0.001)\<close>, the row sums to
  \<open>1.001 rowSum/(rowSum + 0.001)\<close> afterwards, and that is within \<open>0.001\<close> of 1 when
  \<open>rowSum\<close> is at least \<open>1/2\<close>.
\<close>

theorem C2_smoothing_amended:
  assumes "squareOf n F" and "i < n" and "j < n"
  shows "smoothDD True n F ! i ! j = F ! i ! j * specFactor (rowSum n F i)
       \<and> (rowSum n F i \<noteq> 0 \<longrightarrow> rowSum n (smoothDD True n F) i = 1)
       \<and> smoothSky True n F ! i ! j
            = F ! i ! j * (1 - (rowSum n F i - 1) / (rowSum n F i + 1 / 1000))
       \<and> (rowSum n F i \<noteq> - (1 / 1000) \<longrightarrow>
            rowSum n (smoothSky True n F) i
              = (1001 / 1000) * rowSum n F i / (rowSum n F i + 1 / 1000))
       \<and> (1 / 2 \<le> rowSum n F i \<longrightarrow> \<bar>rowSum n (smoothSky True n F) i - 1\<bar> < 1 / 1000)"
proof -
  have "\<bar>rowSum n (smoothSky True n F) i - 1\<bar> < 1 / 1000" if "1 / 2 \<le> rowSum n F i"
  proof -
    from that have ne: "rowSum n F i \<noteq> - (1 / 1000)" by simp
    have "rowSum n (smoothSky True n F) i
        = (1001 / 1000) * rowSum n F i / (rowSum n F i + 1 / 1000)"
      using assms(1,2) ne by (rule smoothSky_rowSum)
    with sky_bound[OF that] show ?thesis by (simp only:)
  qed
  then show ?thesis
    using assms by (simp add: smoothDD_nth smoothDD_rowSum smoothSky_nth smoothSky_rowSum)
qed

theorem C2_smoothing_amended_witness:
  "smoothDD True 2 [[1 / 2, 1 / 2], [1, 3]] ! 1 ! 0 = 1 / 4
 \<and> rowSum 2 (smoothDD True 2 [[1 / 2, 1 / 2], [1, 3]]) 1 = 1
 \<and> smoothSky True 2 [[1 / 2, 1 / 2], [1, 3]] ! 1 ! 0 = 1001 / 4001
 \<and> rowSum 2 (smoothSky True 2 [[1 / 2, 1 / 2], [1, 3]]) 1 = 4004 / 4001
 \<and> \<bar>rowSum 2 (smoothSky True 2 [[1 / 2, 1 / 2], [1, 3]]) 1 - 1\<bar> < 1 / 1000"
proof -
  have s: "rowSum 2 [[1 / 2, 1 / 2], [1, 3]] 1 = 4"
    by (simp add: rowSum_sum lessThan_Suc numeral_2_eq_2)
  have sq: "squareOf 2 [[1 / 2, 1 / 2], [1, 3]]" by (simp add: squareOf_def)
  note th = C2_smoothing_amended[OF sq, of 1 0, unfolded s]
  from th show ?thesis by (simp add: specFactor_def)
qed

subsection \<open>C4, C10: the factorisation cache\<close>

lemma loadOrDecompose_match:
  "file = Some f \<Longrightarrow> storedCount f = tot \<Longrightarrow> tot \<noteq> - 1 \<Longrightarrow>
   loadOrDecompose LUD nProcs tot file C p = (storedCLU f, storedPivots f, file, [msgRead])"
  by (simp add: loadOrDecompose_def)

lemma loadOrDecompose_mismatch:
  "file = Some f \<Longrightarrow> storedCount f \<noteq> tot \<Longrightarrow>
   loadOrDecompose LUD nProcs tot file C p =
     (fst (LUD C), snd (LUD C),
      (if nProcs > 1 then Some \<lparr>storedCount = tot, storedCLU = fst (LUD C), storedPivots = snd (LUD C)\<rparr>
       else file),
      [msgMismatch, msgDecompose])"
  by (simp add: loadOrDecompose_def split: prod.splits)

lemma loadOrDecompose_absent:
  "loadOrDecompose LUD nProcs tot None C p =
     (fst (LUD C), snd (LUD C),
      (if nProcs > 1 then Some \<lparr>storedCount = tot, storedCLU = fst (LUD C), storedPivots = snd (LUD C)\<rparr>
       else None),
      [msgDecompose])"
  by (simp add: loadOrDecompose_def split: prod.splits)

lemma loadOrDecompose_serial_file:
  "nProcs \<le> 1 \<Longrightarrow> fst (snd (snd (loadOrDecompose LUD nProcs tot file C p))) = file"
  by (simp add: loadOrDecompose_def split: prod.splits option.splits)

lemma msgs_distinct: "msgRead \<noteq> msgMismatch" "msgRead \<noteq> msgDecompose" "msgMismatch \<noteq> msgDecompose"
  by (simp_all add: msgRead_def msgMismatch_def msgDecompose_def)

lemma constUpdateSky_first:
  "iterCounter st = 0 \<Longrightarrow>
   constUpdateSky LUD nProcs n E F files st =
     (case loadOrDecompose LUD nProcs (int n) (files fileCLU_qr)
             (lwConstAssemble n E F (CLUmat st)) (pivotIndices st) of
        (CLU', piv', file', msgs) \<Rightarrow>
          (st\<lparr>iterCounter := iterCounter st + 1, CLUmat := CLU', pivotIndices := piv'\<rparr>,
           files(fileCLU_qr := file'), msgs))"
  by (simp add: constUpdateSky_def)

lemma constUpdateDD_first:
  "iterCounter st = 0 \<Longrightarrow>
   constUpdateDD LUD nProcs n A F files st =
     (case loadOrDecompose LUD nProcs (int n) (files fileCLU_qs)
             (swConstAssemble n A F (CLUmat st)) (pivotIndices st) of
        (CLU', piv', file', msgs) \<Rightarrow>
          (st\<lparr>iterCounter := iterCounter st + 1, CLUmat := CLU', pivotIndices := piv'\<rparr>,
           files(fileCLU_qs := file'), msgs))"
  by (simp add: constUpdateDD_def)

text \<open>
  C4. On the first update with constant optical properties (\<^verbatim>\<open>iterCounter_ == 0\<close>), when the
  cache file exists: if the stored element count equals the current count of coarse elements,
  the stored factorisation and pivots are taken over and only the line "Read decomposed C
  matrix" is printed; if it differs, the matrix just built is decomposed and the warning is
  printed before "Decomposing C matrix". The cache is read exactly when the counts agree.
\<close>

theorem C4_cache_reused_iff_count_matches:
  assumes "iterCounter st = 0"
  shows "(files fileCLU_qr = Some f \<longrightarrow>
           (case constUpdateSky LUDecompose nProcs n E F files st of (st', files', msgs) \<Rightarrow>
              (storedCount f = int n \<longrightarrow>
                 CLUmat st' = storedCLU f \<and> pivotIndices st' = storedPivots f \<and> msgs = [msgRead])
            \<and> (storedCount f \<noteq> int n \<longrightarrow>
                 (CLUmat st', pivotIndices st') = LUDecompose (lwConstAssemble n E F (CLUmat st))
                 \<and> msgs = [msgMismatch, msgDecompose])
            \<and> (msgRead \<in> set msgs \<longleftrightarrow> storedCount f = int n)))
       \<and> (files fileCLU_qs = Some f \<longrightarrow>
           (case constUpdateDD LUDecompose nProcs n A F files st of (st', files', msgs) \<Rightarrow>
              (storedCount f = int n \<longrightarrow>
                 CLUmat st' = storedCLU f \<and> pivotIndices st' = storedPivots f \<and> msgs = [msgRead])
            \<and> (storedCount f \<noteq> int n \<longrightarrow>
                 (CLUmat st', pivotIndices st') = LUDecompose (swConstAssemble n A F (CLUmat st))
                 \<and> msgs = [msgMismatch, msgDecompose])
            \<and> (msgRead \<in> set msgs \<longleftrightarrow> storedCount f = int n)))"
proof -
  have neg: "int n \<noteq> - 1" by simp
  show ?thesis
  proof (cases "storedCount f = int n")
    case True
    then show ?thesis
      using assms neg
      by (auto simp: constUpdateSky_first constUpdateDD_first loadOrDecompose_match)
  next
    case False
    then show ?thesis
      using assms msgs_distinct
      by (auto simp: constUpdateSky_first constUpdateDD_first loadOrDecompose_mismatch)
  qed
qed

theorem C4_cache_reused_iff_count_matches_witness:
  "constUpdateSky (\<lambda>M. (M, [0])) 2 1 [1] [[0]]
      ((\<lambda>_. None)(fileCLU_qr := Some \<lparr>storedCount = 1, storedCLU = [[7]], storedPivots = [5]\<rparr>))
      (initialState 1)
    = (\<lparr>iterCounter = 1, CLUmat = [[7]], pivotIndices = [5]\<rparr>,
       (\<lambda>_. None)(fileCLU_qr := Some \<lparr>storedCount = 1, storedCLU = [[7]], storedPivots = [5]\<rparr>),
       [msgRead])
 \<and> CLUmat (fst (constUpdateDD (\<lambda>M. (M, [0])) 2 1 [0] [[0]]
      ((\<lambda>_. None)(fileCLU_qs := Some \<lparr>storedCount = 3, storedCLU = [[7]], storedPivots = [5]\<rparr>))
      (initialState 1))) = [[1]]
 \<and> snd (snd (constUpdateDD (\<lambda>M. (M, [0])) 2 1 [0] [[0]]
      ((\<lambda>_. None)(fileCLU_qs := Some \<lparr>storedCount = 3, storedCLU = [[7]], storedPivots = [5]\<rparr>))
      (initialState 1))) = [msgMismatch, msgDecompose]"
proof -
  have i: "iterCounter (initialState 1) = 0" by (simp add: initialState_def)
  note sky = C4_cache_reused_iff_count_matches[OF i, where
      files = "(\<lambda>_. None)(fileCLU_qr := Some \<lparr>storedCount = 1, storedCLU = [[7]], storedPivots = [5]\<rparr>)"
      and f = "\<lparr>storedCount = 1, storedCLU = [[7]], storedPivots = [5]\<rparr>"
      and LUDecompose = "\<lambda>M. (M, [0])" and nProcs = 2 and n = 1 and E = "[1]" and F = "[[0]]",
      THEN conjunct1]
  note dd = C4_cache_reused_iff_count_matches[OF i, where
      files = "(\<lambda>_. None)(fileCLU_qs := Some \<lparr>storedCount = 3, storedCLU = [[7]], storedPivots = [5]\<rparr>)"
      and f = "\<lparr>storedCount = 3, storedCLU = [[7]], storedPivots = [5]\<rparr>"
      and LUDecompose = "\<lambda>M. (M, [0])" and nProcs = 2 and n = 1 and A = "[0]" and F = "[[0]]",
      THEN conjunct2]
  have a: "swConstAssemble (Suc 0) [0] [[0]] (zeroMatrix (Suc 0)) = [[1]]"
    by (simp add: swConstAssemble_def swConstBody_def matSet_def zeroMatrix_def)
  from sky dd show ?thesis
    by (auto simp: a initialState_def constUpdateSky_def constUpdateDD_def loadOrDecompose_def
        split: prod.splits)
qed

lemma constUpdateSky_serial_files:
  "nProcs \<le> 1 \<Longrightarrow> fst (snd (constUpdateSky LUD nProcs n E F files st)) = files"
proof -
  assume np: "nProcs \<le> 1"
  show ?thesis
  proof (cases "iterCounter st = 0")
    case True
    obtain C p fl ms where r: "loadOrDecompose LUD nProcs (int n) (files fileCLU_qr)
        (lwConstAssemble n E F (CLUmat st)) (pivotIndices st) = (C, p, fl, ms)"
      by (metis prod_cases4)
    with loadOrDecompose_serial_file[OF np, of LUD "int n" "files fileCLU_qr"
        "lwConstAssemble n E F (CLUmat st)" "pivotIndices st"]
    have "fl = files fileCLU_qr" by simp
    with True r show ?thesis by (simp add: constUpdateSky_first)
  next
    case False
    then show ?thesis by (simp add: constUpdateSky_def)
  qed
qed

lemma constUpdateDD_serial_files:
  "nProcs \<le> 1 \<Longrightarrow> fst (snd (constUpdateDD LUD nProcs n A F files st)) = files"
proof -
  assume np: "nProcs \<le> 1"
  show ?thesis
  proof (cases "iterCounter st = 0")
    case True
    obtain C p fl ms where r: "loadOrDecompose LUD nProcs (int n) (files fileCLU_qs)
        (swConstAssemble n A F (CLUmat st)) (pivotIndices st) = (C, p, fl, ms)"
      by (metis prod_cases4)
    with loadOrDecompose_serial_file[OF np, of LUD "int n" "files fileCLU_qs"
        "swConstAssemble n A F (CLUmat st)" "pivotIndices st"]
    have "fl = files fileCLU_qs" by simp
    with True r show ?thesis by (simp add: constUpdateDD_first)
  next
    case False
    then show ?thesis by (simp add: constUpdateDD_def)
  qed
qed

lemma loadOrDecompose_serial:
  assumes "nProcs \<le> 1" and "0 \<le> tot"
  shows "loadOrDecompose LUD nProcs tot file C p =
     (case file of
        None \<Rightarrow> (fst (LUD C), snd (LUD C), file, [msgDecompose])
      | Some f \<Rightarrow>
          if storedCount f = tot then (storedCLU f, storedPivots f, file, [msgRead])
          else (fst (LUD C), snd (LUD C), file, [msgMismatch, msgDecompose]))"
  using assms by (auto simp: loadOrDecompose_def split: prod.splits option.splits)

lemma serial_decomposes_iff:
  assumes "nProcs \<le> 1" and "0 \<le> tot"
  shows "msgDecompose \<in> set (snd (snd (snd (loadOrDecompose LUD nProcs tot file C p))))
         \<longleftrightarrow> (\<forall>f. file = Some f \<longrightarrow> storedCount f \<noteq> tot)"
  unfolding loadOrDecompose_serial[OF assms] using msgs_distinct
  by (auto split: option.splits)

lemma serial_decomposed_result:
  assumes "nProcs \<le> 1" and "0 \<le> tot"
    and "msgDecompose \<in> set (snd (snd (snd (loadOrDecompose LUD nProcs tot file C p))))"
  shows "(fst (loadOrDecompose LUD nProcs tot file C p),
          fst (snd (loadOrDecompose LUD nProcs tot file C p))) = LUD C"
  using assms(3) unfolding loadOrDecompose_serial[OF assms(1,2)] using msgs_distinct
  by (auto split: option.splits if_splits)

lemma serial_read_result:
  assumes "nProcs \<le> 1" and "0 \<le> tot" and "file = Some f" and "storedCount f = tot"
  shows "loadOrDecompose LUD nProcs tot file C p = (storedCLU f, storedPivots f, file, [msgRead])"
  unfolding loadOrDecompose_serial[OF assms(1,2)] using assms(3,4) by simp

text \<open>
  C10, as stated, fails. The read of the cache does not look at the number of processes: a run
  on two processes leaves \<^verbatim>\<open>processor0/CLU_qr\<close> behind, and a serial run started afterwards in
  the same case reads it and does not decompose. Here the decomposition routine returns
  \<open>[[7]]\<close> for every matrix; the serial run keeps that matrix from the file and prints only
  "Read decomposed C matrix from existing file!".
\<close>

theorem C10_serial_run_reads_cache_counterexample:
  "snd (snd (constUpdateSky (\<lambda>M. ([[7]], [0])) 1 1 [1] [[0]]
       (fst (snd (constUpdateSky (\<lambda>M. ([[7]], [0])) 2 1 [1] [[0]] (\<lambda>_. None) (initialState 1))))
       (initialState 1)))
     = [msgRead]
 \<and> msgDecompose \<notin> set (snd (snd (constUpdateSky (\<lambda>M. ([[7]], [0])) 1 1 [1] [[0]]
       (fst (snd (constUpdateSky (\<lambda>M. ([[7]], [0])) 2 1 [1] [[0]] (\<lambda>_. None) (initialState 1))))
       (initialState 1))))"
proof -
  have w: "fst (snd (constUpdateSky (\<lambda>M. ([[7]], [0])) 2 1 [1] [[0]] (\<lambda>_. None) (initialState 1)))
      = (\<lambda>_. None)(fileCLU_qr \<mapsto> \<lparr>storedCount = 1, storedCLU = [[7]], storedPivots = [0]\<rparr>)"
    by (simp add: constUpdateSky_def initialState_def loadOrDecompose_def)
  have r: "snd (snd (constUpdateSky (\<lambda>M. ([[7]], [0])) 1 1 [1] [[0]]
       ((\<lambda>_. None)(fileCLU_qr \<mapsto> \<lparr>storedCount = 1, storedCLU = [[7]], storedPivots = [0]\<rparr>))
       (initialState 1))) = [msgRead]"
    by (simp add: constUpdateSky_def initialState_def loadOrDecompose_def)
  show ?thesis unfolding w r using msgs_distinct by simp
qed

text \<open>
  C10, amended. A run on one process never changes the case files: the cache is written only
  under \<^verbatim>\<open>Pstream::nProcs() > 1\<close>. A serial first update with constant optical properties
  decomposes the matrix exactly when it finds no cache file, or one whose stored count differs
  from the current count; it then keeps the factorisation in its members only. When it finds a
  cache with the matching count it takes the stored factorisation over and prints only the line
  "Read decomposed C matrix from existing file!". A restarted serial run (fresh members, the
  files as they were left) does the same again.
\<close>

theorem C10_cache_written_only_in_parallel_amended:
  shows "(nProcs \<le> 1 \<longrightarrow>
            fst (snd (constUpdateSky LUDecompose nProcs n E F files st)) = files
          \<and> fst (snd (constUpdateDD LUDecompose nProcs n A F files st)) = files)
       \<and> (nProcs \<le> 1 \<and> iterCounter st = 0 \<longrightarrow>
            (case constUpdateSky LUDecompose nProcs n E F files st of (st', files', msgs) \<Rightarrow>
               files' = files
             \<and> (msgDecompose \<in> set msgs
                  \<longleftrightarrow> (\<forall>f. files fileCLU_qr = Some f \<longrightarrow> storedCount f \<noteq> int n))
             \<and> (msgDecompose \<in> set msgs \<longrightarrow>
                  (CLUmat st', pivotIndices st') = LUDecompose (lwConstAssemble n E F (CLUmat st)))
             \<and> (\<forall>f. files fileCLU_qr = Some f \<and> storedCount f = int n \<longrightarrow>
                  CLUmat st' = storedCLU f \<and> pivotIndices st' = storedPivots f \<and> msgs = [msgRead])
             \<and> (msgDecompose
                  \<in> set (snd (snd (constUpdateSky LUDecompose nProcs n E F files' (initialState n))))
                  \<longleftrightarrow> (\<forall>f. files fileCLU_qr = Some f \<longrightarrow> storedCount f \<noteq> int n))))
       \<and> (nProcs \<le> 1 \<and> iterCounter st = 0 \<longrightarrow>
            (case constUpdateDD LUDecompose nProcs n A F files st of (st', files', msgs) \<Rightarrow>
               files' = files
             \<and> (msgDecompose \<in> set msgs
                  \<longleftrightarrow> (\<forall>f. files fileCLU_qs = Some f \<longrightarrow> storedCount f \<noteq> int n))
             \<and> (msgDecompose \<in> set msgs \<longrightarrow>
                  (CLUmat st', pivotIndices st') = LUDecompose (swConstAssemble n A F (CLUmat st)))
             \<and> (\<forall>f. files fileCLU_qs = Some f \<and> storedCount f = int n \<longrightarrow>
                  CLUmat st' = storedCLU f \<and> pivotIndices st' = storedPivots f \<and> msgs = [msgRead])
             \<and> (msgDecompose
                  \<in> set (snd (snd (constUpdateDD LUDecompose nProcs n A F files' (initialState n))))
                  \<longleftrightarrow> (\<forall>f. files fileCLU_qs = Some f \<longrightarrow> storedCount f \<noteq> int n))))"
proof (intro conjI impI)
  assume "nProcs \<le> 1"
  then show "fst (snd (constUpdateSky LUDecompose nProcs n E F files st)) = files"
    by (rule constUpdateSky_serial_files)
next
  assume "nProcs \<le> 1"
  then show "fst (snd (constUpdateDD LUDecompose nProcs n A F files st)) = files"
    by (rule constUpdateDD_serial_files)
next
  assume a: "nProcs \<le> 1 \<and> iterCounter st = 0"
  then have np: "nProcs \<le> 1" and i0: "iterCounter st = 0" by simp_all
  have n0: "0 \<le> int n" by simp
  have j0: "iterCounter (initialState n) = 0" by (simp add: initialState_def)
  let ?C = "lwConstAssemble n E F (CLUmat st)"
  let ?L = "loadOrDecompose LUDecompose nProcs (int n) (files fileCLU_qr) ?C (pivotIndices st)"
  let ?M = "loadOrDecompose LUDecompose nProcs (int n) (files fileCLU_qr)
      (lwConstAssemble n E F (CLUmat (initialState n))) (pivotIndices (initialState n))"
  obtain C' p' fl ms where r: "?L = (C', p', fl, ms)" by (metis prod_cases4)
  obtain C0 p0 fl0 ms0 where r0: "?M = (C0, p0, fl0, ms0)" by (metis prod_cases4)
  have u: "constUpdateSky LUDecompose nProcs n E F files st
      = (st\<lparr>iterCounter := iterCounter st + 1, CLUmat := C', pivotIndices := p'\<rparr>,
         files(fileCLU_qr := fl), ms)"
    by (simp add: constUpdateSky_first[OF i0] r)
  have fl: "files(fileCLU_qr := fl) = files"
    using constUpdateSky_serial_files[OF np, of LUDecompose n E F files st] u by simp
  have u0: "snd (snd (constUpdateSky LUDecompose nProcs n E F files (initialState n))) = ms0"
    by (simp add: constUpdateSky_first[OF j0] r0)
  have d: "msgDecompose \<in> set ms \<longleftrightarrow> (\<forall>f. files fileCLU_qr = Some f \<longrightarrow> storedCount f \<noteq> int n)"
    using serial_decomposes_iff[OF np n0, of LUDecompose "files fileCLU_qr" ?C "pivotIndices st"] r
    by simp
  have d0: "msgDecompose \<in> set ms0 \<longleftrightarrow> (\<forall>f. files fileCLU_qr = Some f \<longrightarrow> storedCount f \<noteq> int n)"
    using serial_decomposes_iff[OF np n0, of LUDecompose "files fileCLU_qr"
        "lwConstAssemble n E F (CLUmat (initialState n))" "pivotIndices (initialState n)"] r0
    by simp
  have res: "(C', p') = LUDecompose ?C" if "msgDecompose \<in> set ms"
    using serial_decomposed_result[OF np n0, of LUDecompose "files fileCLU_qr" ?C "pivotIndices st"]
      that r by simp
  have rd: "C' = storedCLU f \<and> p' = storedPivots f \<and> ms = [msgRead]"
    if "files fileCLU_qr = Some f \<and> storedCount f = int n" for f
    using serial_read_result[OF np n0, of "files fileCLU_qr" f LUDecompose ?C "pivotIndices st"]
      that r by simp
  show "case constUpdateSky LUDecompose nProcs n E F files st of (st', files', msgs) \<Rightarrow>
               files' = files
             \<and> (msgDecompose \<in> set msgs
                  \<longleftrightarrow> (\<forall>f. files fileCLU_qr = Some f \<longrightarrow> storedCount f \<noteq> int n))
             \<and> (msgDecompose \<in> set msgs \<longrightarrow>
                  (CLUmat st', pivotIndices st') = LUDecompose (lwConstAssemble n E F (CLUmat st)))
             \<and> (\<forall>f. files fileCLU_qr = Some f \<and> storedCount f = int n \<longrightarrow>
                  CLUmat st' = storedCLU f \<and> pivotIndices st' = storedPivots f \<and> msgs = [msgRead])
             \<and> (msgDecompose
                  \<in> set (snd (snd (constUpdateSky LUDecompose nProcs n E F files' (initialState n))))
                  \<longleftrightarrow> (\<forall>f. files fileCLU_qr = Some f \<longrightarrow> storedCount f \<noteq> int n))"
    unfolding u prod.case fl u0 using d d0 res rd by auto
next
  assume a: "nProcs \<le> 1 \<and> iterCounter st = 0"
  then have np: "nProcs \<le> 1" and i0: "iterCounter st = 0" by simp_all
  have n0: "0 \<le> int n" by simp
  have j0: "iterCounter (initialState n) = 0" by (simp add: initialState_def)
  let ?C = "swConstAssemble n A F (CLUmat st)"
  let ?L = "loadOrDecompose LUDecompose nProcs (int n) (files fileCLU_qs) ?C (pivotIndices st)"
  let ?M = "loadOrDecompose LUDecompose nProcs (int n) (files fileCLU_qs)
      (swConstAssemble n A F (CLUmat (initialState n))) (pivotIndices (initialState n))"
  obtain C' p' fl ms where r: "?L = (C', p', fl, ms)" by (metis prod_cases4)
  obtain C0 p0 fl0 ms0 where r0: "?M = (C0, p0, fl0, ms0)" by (metis prod_cases4)
  have u: "constUpdateDD LUDecompose nProcs n A F files st
      = (st\<lparr>iterCounter := iterCounter st + 1, CLUmat := C', pivotIndices := p'\<rparr>,
         files(fileCLU_qs := fl), ms)"
    by (simp add: constUpdateDD_first[OF i0] r)
  have fl: "files(fileCLU_qs := fl) = files"
    using constUpdateDD_serial_files[OF np, of LUDecompose n A F files st] u by simp
  have u0: "snd (snd (constUpdateDD LUDecompose nProcs n A F files (initialState n))) = ms0"
    by (simp add: constUpdateDD_first[OF j0] r0)
  have d: "msgDecompose \<in> set ms \<longleftrightarrow> (\<forall>f. files fileCLU_qs = Some f \<longrightarrow> storedCount f \<noteq> int n)"
    using serial_decomposes_iff[OF np n0, of LUDecompose "files fileCLU_qs" ?C "pivotIndices st"] r
    by simp
  have d0: "msgDecompose \<in> set ms0 \<longleftrightarrow> (\<forall>f. files fileCLU_qs = Some f \<longrightarrow> storedCount f \<noteq> int n)"
    using serial_decomposes_iff[OF np n0, of LUDecompose "files fileCLU_qs"
        "swConstAssemble n A F (CLUmat (initialState n))" "pivotIndices (initialState n)"] r0
    by simp
  have res: "(C', p') = LUDecompose ?C" if "msgDecompose \<in> set ms"
    using serial_decomposed_result[OF np n0, of LUDecompose "files fileCLU_qs" ?C "pivotIndices st"]
      that r by simp
  have rd: "C' = storedCLU f \<and> p' = storedPivots f \<and> ms = [msgRead]"
    if "files fileCLU_qs = Some f \<and> storedCount f = int n" for f
    using serial_read_result[OF np n0, of "files fileCLU_qs" f LUDecompose ?C "pivotIndices st"]
      that r by simp
  show "case constUpdateDD LUDecompose nProcs n A F files st of (st', files', msgs) \<Rightarrow>
               files' = files
             \<and> (msgDecompose \<in> set msgs
                  \<longleftrightarrow> (\<forall>f. files fileCLU_qs = Some f \<longrightarrow> storedCount f \<noteq> int n))
             \<and> (msgDecompose \<in> set msgs \<longrightarrow>
                  (CLUmat st', pivotIndices st') = LUDecompose (swConstAssemble n A F (CLUmat st)))
             \<and> (\<forall>f. files fileCLU_qs = Some f \<and> storedCount f = int n \<longrightarrow>
                  CLUmat st' = storedCLU f \<and> pivotIndices st' = storedPivots f \<and> msgs = [msgRead])
             \<and> (msgDecompose
                  \<in> set (snd (snd (constUpdateDD LUDecompose nProcs n A F files' (initialState n))))
                  \<longleftrightarrow> (\<forall>f. files fileCLU_qs = Some f \<longrightarrow> storedCount f \<noteq> int n))"
    unfolding u prod.case fl u0 using d d0 res rd by auto
qed

text \<open>
  A serial first update in an empty case decomposes and leaves the case empty; with the cache of
  an earlier parallel run in place it reads; a run on two processes writes the cache.
\<close>

theorem C10_cache_written_only_in_parallel_amended_witness:
  "fst (snd (constUpdateSky (\<lambda>M. (M, [0])) 1 1 [1] [[0]] (\<lambda>_. None) (initialState 1))) = (\<lambda>_. None)
 \<and> msgDecompose \<in> set (snd (snd (constUpdateSky (\<lambda>M. (M, [0])) 1 1 [1] [[0]] (\<lambda>_. None) (initialState 1))))
 \<and> snd (snd (constUpdateDD (\<lambda>M. (M, [0])) 1 1 [0] [[0]]
        ((\<lambda>_. None)(fileCLU_qs \<mapsto> \<lparr>storedCount = 1, storedCLU = [[5]], storedPivots = [3]\<rparr>))
        (initialState 1))) = [msgRead]
 \<and> fst (snd (constUpdateSky (\<lambda>M. (M, [0])) 2 1 [1] [[0]] (\<lambda>_. None) (initialState 1))) fileCLU_qr
     = Some \<lparr>storedCount = 1, storedCLU = [[1]], storedPivots = [0]\<rparr>"
proof -
  note th1 = C10_cache_written_only_in_parallel_amended[where nProcs = 1
      and LUDecompose = "\<lambda>M. (M, [0])" and n = 1 and E = "[1]" and A = "[0]" and F = "[[0]]"
      and files = "\<lambda>_. None" and st = "initialState 1"]
  note th2 = C10_cache_written_only_in_parallel_amended[where nProcs = 1
      and LUDecompose = "\<lambda>M. (M, [0])" and n = 1 and E = "[1]" and A = "[0]" and F = "[[0]]"
      and files = "(\<lambda>_. None)(fileCLU_qs \<mapsto> \<lparr>storedCount = 1, storedCLU = [[5]], storedPivots = [3]\<rparr>)"
      and st = "initialState 1"]
  have i0: "iterCounter (initialState 1) = 0" by (simp add: initialState_def)
  have p: "fst (snd (constUpdateSky (\<lambda>M. (M, [0])) 2 1 [1] [[0]] (\<lambda>_. None) (initialState 1))) fileCLU_qr
     = Some \<lparr>storedCount = 1, storedCLU = [[1]], storedPivots = [0]\<rparr>"
    by (simp add: constUpdateSky_def initialState_def loadOrDecompose_def lwConstAssemble_def
        lwConstBody_def matSet_def zeroMatrix_def)
  have a: "fst (snd (constUpdateSky (\<lambda>M. (M, [0])) 1 1 [1] [[0]] (\<lambda>_. None) (initialState 1))) = (\<lambda>_. None)
      \<and> msgDecompose \<in> set (snd (snd (constUpdateSky (\<lambda>M. (M, [0])) 1 1 [1] [[0]] (\<lambda>_. None) (initialState 1))))"
    using th1 i0 by (simp split: prod.splits)
  have b: "snd (snd (constUpdateDD (\<lambda>M. (M, [0])) 1 1 [0] [[0]]
        ((\<lambda>_. None)(fileCLU_qs \<mapsto> \<lparr>storedCount = 1, storedCLU = [[5]], storedPivots = [3]\<rparr>))
        (initialState 1))) = [msgRead]"
    using th2 i0 by (simp split: prod.splits)
  from a b p show ?thesis by simp
qed

subsection \<open>C7: a query time at a stored stamp\<close>

lemma sunRangeFrom_all_later:
  "\<forall>x\<in>set xs. t < x \<Longrightarrow> fst (sunRangeFrom xs t i (lo, hi)) = lo"
  by (cases xs) auto

lemma sunRangeFrom_hit:
  "sorted xs \<Longrightarrow> t \<in> set xs \<Longrightarrow>
   i \<le> fst (sunRangeFrom xs t i (lo, hi)) \<and>
   fst (sunRangeFrom xs t i (lo, hi)) < i + length xs \<and>
   xs ! (fst (sunRangeFrom xs t i (lo, hi)) - i) = t"
proof (induction xs arbitrary: i lo hi)
  case Nil
  then show ?case by simp
next
  case (Cons a xs)
  have le: "a \<le> t" using Cons.prems by auto
  show ?case
  proof (cases "t \<in> set xs")
    case True
    have s: "sorted xs" using Cons.prems(1) by simp
    let ?r = "fst (sunRangeFrom xs t (i + 1) (i, i))"
    from Cons.IH[OF s True, of "i + 1" i i]
    have b: "i + 1 \<le> ?r" "?r < i + 1 + length xs" "xs ! (?r - (i + 1)) = t" by simp_all
    from b(1) have "?r - i = Suc (?r - (i + 1))" by simp
    then have "(a # xs) ! (?r - i) = xs ! (?r - (i + 1))" by simp
    with b le show ?thesis by simp
  next
    case False
    with Cons.prems have ta: "t = a" by simp
    have "\<forall>x\<in>set xs. t < x"
    proof
      fix x assume x: "x \<in> set xs"
      with Cons.prems(1) have "a \<le> x" by simp
      moreover from x False have "x \<noteq> t" by auto
      ultimately show "t < x" using ta by simp
    qed
    then have "fst (sunRangeFrom xs t (i + 1) (i, i)) = i" by (rule sunRangeFrom_all_later)
    with le ta show ?thesis by simp
  qed
qed

lemma sunRange_hit:
  assumes "sorted xs" and "t \<in> set xs"
  shows "fst (sunRange xs t) < length xs" and "xs ! fst (sunRange xs t) = t"
  using sunRangeFrom_hit[OF assms, of 0 0 0] by (simp_all add: sunRange_def)

lemma hi_fraction_hit:
  assumes "sorted xs" and "t \<in> set xs"
  shows "hi_fraction xs t = 0"
proof -
  obtain lo hi where r: "sunRange xs t = (lo, hi)" by (cases "sunRange xs t")
  with sunRange_hit(2)[OF assms] have "xs ! lo = t" by simp
  with r show ?thesis by (simp add: hi_fraction_def)
qed

text \<open>
  C7. Let the stored time stamps be in ascending order and let the simulation time equal one of
  them. Then the search ends with its lower bound at a stamp equal to the time (at that very
  index when the stamps are distinct), \<open>hi_fraction\<close> is 0, and every interpolated coefficient
  is the value stored at that stamp: the irradiance of element \<open>j\<close> is the stored sky plus sun
  coefficient, and the fine-face correction uses the stored coarse and fine values.
\<close>

theorem C7_interpolation_at_time_stamp:
  assumes "sorted sunPosVector_x" and "k < length sunPosVector_x" and "t = sunPosVector_x ! k"
  shows "hi_fraction sunPosVector_x t = 0
       \<and> fst (sunRange sunPosVector_x t) < length sunPosVector_x
       \<and> sunPosVector_x ! fst (sunRange sunPosVector_x t) = t
       \<and> (distinct sunPosVector_x \<longrightarrow> fst (sunRange sunPosVector_x t) = k)
       \<and> Isol sky sun sunPosVector_x t j
            = sky ! fst (sunRange sunPosVector_x t) ! j + sun ! fst (sunRange sunPosVector_x t) ! j
       \<and> fineCorrection sun fine sunPosVector_x t A gc gf q
            = q - sun ! fst (sunRange sunPosVector_x t) ! gc * (1 - A ! gc)
                + fine ! fst (sunRange sunPosVector_x t) ! gf * (1 - A ! gc)"
proof -
  have mem: "t \<in> set sunPosVector_x" using assms(2,3) by simp
  note hf = hi_fraction_hit[OF assms(1) mem]
  note lo = sunRange_hit[OF assms(1) mem]
  have idx: "fst (sunRange sunPosVector_x t) = k" if "distinct sunPosVector_x"
    using that lo assms(2,3) by (simp add: nth_eq_iff_index_eq)
  obtain l h where r: "sunRange sunPosVector_x t = (l, h)" by (cases "sunRange sunPosVector_x t")
  have "Isol sky sun sunPosVector_x t j = sky ! l ! j + sun ! l ! j"
    by (simp add: Isol_def r hf)
  moreover have "fineCorrection sun fine sunPosVector_x t A gc gf q
      = q - sun ! l ! gc * (1 - A ! gc) + fine ! l ! gf * (1 - A ! gc)"
    by (simp add: fineCorrection_def r hf)
  ultimately show ?thesis using hf lo idx r by simp
qed

theorem C7_interpolation_at_time_stamp_witness:
  "hi_fraction [0, 10, 20] 10 = 0
 \<and> sunRange [0, 10, 20] 10 = (1, 2)
 \<and> Isol [[1], [2], [3]] [[4], [5], [6]] [0, 10, 20] 10 0 = 7
 \<and> fineCorrection [[4], [5], [6]] [[7], [8], [9]] [0, 10, 20] 10 [1 / 2] 0 0 100 = 203 / 2"
proof -
  have r: "sunRange [0, 10, 20] 10 = (1, 2)" by (simp add: sunRange_def)
  have s: "sorted [0, 10, 20 :: real]" by simp
  note th = C7_interpolation_at_time_stamp[OF s, of 1 10 "[[1], [2], [3]]" "[[4], [5], [6]]" 0
      "[[7], [8], [9]]" "[1 / 2]" 0 0 100]
  from th show ?thesis by (simp add: r)
qed

subsection \<open>C3: the sun coupling coefficient without obstruction and leaf area\<close>














subsection \<open>C9: the missing vegetation pre-pass\<close>

text \<open>
  C9. With a vegetation region configured and no \<^verbatim>\<open>kcLAIboundary\<close> file, the check ends the
  program with the fatal error "File kcLAIboundary not found! Did you not run calcLAI before?",
  and no sun coefficient is computed, for any face, with any attenuation. Without a vegetation
  region, or with the file, the check passes and the coefficient is computed.
\<close>

theorem C9_missing_kcLAIboundary_is_fatal:
  shows "(vegNames \<noteq> [] \<and> kcLAIfile = None \<longrightarrow>
            readKcLAIboundary vegNames kcLAIfile = Inl (FatalError msgNoKcLAI)
          \<and> sunViewCoeffAt SMALL vegNames kcLAIfile vectorId faceNoAll d load0
              = Inl (FatalError msgNoKcLAI))
       \<and> (vegNames = [] \<or> kcLAIfile \<noteq> None \<longrightarrow>
            isl (sunViewCoeffAt SMALL vegNames kcLAIfile vectorId faceNoAll d load0) = False)"
  by (auto simp: readKcLAIboundary_def sunViewCoeffAt_def)

theorem C9_missing_kcLAIboundary_is_fatal_witness:
  "sunViewCoeffAt (1 / 10 ^ 15) [''vegetation''] None 0 0 groundFace [0]
     = Inl (FatalError ''File kcLAIboundary not found! Did you not run calcLAI before?'')
 \<and> isl (sunViewCoeffAt (1 / 10 ^ 15) [''vegetation''] (Some [[0]]) 0 0 groundFace [0]) = False"
  using C9_missing_kcLAIboundary_is_fatal[of "[''vegetation'']" None "1 / 10 ^ 15" 0 0 groundFace "[0]"]
        C9_missing_kcLAIboundary_is_fatal[of "[''vegetation'']" "Some [[0]]" "1 / 10 ^ 15" 0 0 groundFace "[0]"]
  by (simp add: msgNoKcLAI_def)

subsection \<open>C5: the leaf-area index of a uniform canopy\<close>

text \<open>The flat index determines the three grid indices.\<close>

lemma pIndex_layer:
  assumes "0 \<le> i" "i < nx" "0 \<le> j" "j < ny"
  shows "pIndex nx ny i j k div (nx * ny) = k"
proof -
  have r: "0 \<le> j * nx + i" "j * nx + i < nx * ny"
  proof -
    show "0 \<le> j * nx + i" using assms by simp
    have "j * nx + i < j * nx + nx" using assms by simp
    also have "\<dots> = (j + 1) * nx" by (simp add: algebra_simps)
    also have "\<dots> \<le> ny * nx" using assms by (intro mult_right_mono) simp_all
    finally show "j * nx + i < nx * ny" by (simp add: mult.commute)
  qed
  have "pIndex nx ny i j k = k * (nx * ny) + (j * nx + i)" by (simp add: pIndex_def algebra_simps)
  moreover have "nx * ny \<noteq> 0" using r by auto
  ultimately show ?thesis using r by (simp add: div_pos_pos_trivial)
qed

lemma pIndex_rest:
  assumes "0 \<le> i" "i < nx" "0 \<le> j" "j < ny"
  shows "pIndex nx ny i j k mod (nx * ny) = j * nx + i"
proof -
  have r: "0 \<le> j * nx + i" "j * nx + i < nx * ny"
  proof -
    show "0 \<le> j * nx + i" using assms by simp
    have "j * nx + i < j * nx + nx" using assms by simp
    also have "\<dots> = (j + 1) * nx" by (simp add: algebra_simps)
    also have "\<dots> \<le> ny * nx" using assms by (intro mult_right_mono) simp_all
    finally show "j * nx + i < nx * ny" by (simp add: mult.commute)
  qed
  have "pIndex nx ny i j k = k * (nx * ny) + (j * nx + i)" by (simp add: pIndex_def algebra_simps)
  moreover have "nx * ny \<noteq> 0" using r by auto
  ultimately show ?thesis using r by (simp add: mod_pos_pos_trivial)
qed

lemma pIndex_inj:
  assumes "0 \<le> i" "i < nx" "0 \<le> j" "j < ny" "0 \<le> i'" "i' < nx" "0 \<le> j'" "j' < ny"
    and eq: "pIndex nx ny i j k = pIndex nx ny i' j' k'"
  shows "i = i' \<and> j = j' \<and> k = k'"
proof -
  have k: "k = k'" using pIndex_layer[OF assms(1-4), of k] pIndex_layer[OF assms(5-8), of k'] eq by simp
  have "j * nx + i = j' * nx + i'"
    using pIndex_rest[OF assms(1-4), of k] pIndex_rest[OF assms(5-8), of k'] eq by simp
  then have e: "i + nx * j = i' + nx * j'" by (simp add: algebra_simps)
  have "(i + nx * j) mod nx = i" "(i' + nx * j') mod nx = i'"
    using assms by (simp_all add: mod_pos_pos_trivial)
  with e have i: "i = i'" by simp
  have "(i + nx * j) div nx = j" "(i' + nx * j') div nx = j'"
    using assms by (simp_all add: div_pos_pos_trivial)
  with e have "j = j'" by simp
  with i k show ?thesis by simp
qed

lemma upto_rev_step: "rev [0..int (Suc n) - 1] = int n # rev [0..int n - 1]"
proof -
  have "int (Suc n) - 1 = int n" by simp
  then show ?thesis using upto_rec2[of 0 "int n"] by simp
qed

lemma column_pass_other:
  "(\<forall>k. 0 \<le> k \<and> k \<le> int n - 1 \<longrightarrow> q \<noteq> pIndex nx ny i j k) \<Longrightarrow>
   fold (trapezoidStep LAD nx ny dz i j) (rev [0..int n - 1]) L q = L q"
proof (induction n arbitrary: L)
  case 0
  then show ?case by simp
next
  case (Suc n)
  let ?f = "trapezoidStep LAD nx ny dz i j"
  have "\<forall>k. 0 \<le> k \<and> k \<le> int n - 1 \<longrightarrow> q \<noteq> pIndex nx ny i j k" using Suc.prems by simp
  then have "fold ?f (rev [0..int n - 1]) (?f (int n) L) q = ?f (int n) L q" by (rule Suc.IH)
  moreover have "q \<noteq> pIndex nx ny i j (int n)" using Suc.prems by simp
  then have "?f (int n) L q = L q" by (simp add: trapezoidStep_def Let_def)
  ultimately show ?case by (simp only: upto_rev_step fold_Cons comp_apply)
qed

lemma column_pass_own:
  assumes box: "0 \<le> i" "i < nx" "0 \<le> j" "j < ny"
  shows "0 \<le> k \<Longrightarrow> k \<le> int n \<Longrightarrow>
           fold (trapezoidStep LAD nx ny dz i j) (rev [0..int n - 1]) L (pIndex nx ny i j k)
             = L (pIndex nx ny i j (int n)) + (\<Sum>k' \<in> {k..int n - 1}. trapezoid LAD nx ny dz i j k')"
proof (induction n arbitrary: L)
  case 0
  then have "k = 0" by simp
  then show ?case by simp
next
  case (Suc n)
  let ?f = "trapezoidStep LAD nx ny dz i j"
  let ?L1 = "?f (int n) L"
  have fold: "fold ?f (rev [0..int (Suc n) - 1]) L = fold ?f (rev [0..int n - 1]) ?L1"
    by (simp only: upto_rev_step fold_Cons comp_apply)
  have fold': "fold ?f (rev [0..int n]) L = fold ?f (rev [0..int n - 1]) ?L1"
    using fold by simp
  have ne: "pIndex nx ny i j a \<noteq> pIndex nx ny i j b" if "a \<noteq> b" for a b
    using pIndex_inj[OF box box, of a b] that by auto
  show ?case
  proof (cases "k = int (Suc n)")
    case True
    have "\<forall>k'. 0 \<le> k' \<and> k' \<le> int n - 1 \<longrightarrow> pIndex nx ny i j k \<noteq> pIndex nx ny i j k'"
      using True ne by auto
    then have "fold ?f (rev [0..int n - 1]) ?L1 (pIndex nx ny i j k) = ?L1 (pIndex nx ny i j k)"
      by (rule column_pass_other)
    moreover have "?L1 (pIndex nx ny i j k) = L (pIndex nx ny i j k)"
      using True ne[of k "int n"] by (simp add: trapezoidStep_def Let_def)
    ultimately show ?thesis using True by (simp add: fold')
  next
    case False
    with Suc.prems have kn: "k \<le> int n" by simp
    have "fold ?f (rev [0..int n - 1]) ?L1 (pIndex nx ny i j k)
        = ?L1 (pIndex nx ny i j (int n)) + (\<Sum>k' \<in> {k..int n - 1}. trapezoid LAD nx ny dz i j k')"
      using Suc.IH[OF Suc.prems(1) kn] .
    moreover have "?L1 (pIndex nx ny i j (int n))
        = L (pIndex nx ny i j (int n + 1)) + trapezoid LAD nx ny dz i j (int n)"
      by (simp add: trapezoidStep_def trapezoid_def Let_def)
    moreover have "{k..int n} = insert (int n) {k..int n - 1}" using kn by auto
    then have "(\<Sum>k' \<in> {k..int n}. trapezoid LAD nx ny dz i j k')
        = trapezoid LAD nx ny dz i j (int n) + (\<Sum>k' \<in> {k..int n - 1}. trapezoid LAD nx ny dz i j k')"
      by simp
    moreover have "int (Suc n) = int n + 1" "int (Suc n) - 1 = int n" by simp_all
    ultimately show ?thesis by (simp add: fold' add.commute)
  qed
qed

lemma integrated_column:
  assumes nz: "1 \<le> nz" and box: "0 \<le> i0" "i0 < nx" "0 \<le> j0" "j0 < ny"
    and inv: "integrated LAD nx ny nz dz D L"
  shows "integrated LAD nx ny nz dz (insert (i0, j0) D)
           (fold (trapezoidStep LAD nx ny dz i0 j0) (rev [0..nz - 2]) L)"
proof -
  define n where "n = nat (nz - 1)"
  have n: "int n = nz - 1" "int n - 1 = nz - 2" using nz by (simp_all add: n_def)
  let ?L' = "fold (trapezoidStep LAD nx ny dz i0 j0) (rev [0..nz - 2]) L"
  have "?L' (pIndex nx ny i j k)
      = (if (i, j) \<in> insert (i0, j0) D then columnLAI LAD nx ny nz dz i j k else 0)"
    if b: "0 \<le> i" "i < nx" "0 \<le> j" "j < ny" "0 \<le> k" "k \<le> nz - 1" for i j k
  proof (cases "(i, j) = (i0, j0)")
    case True
    have top: "L (pIndex nx ny i0 j0 (nz - 1)) = 0"
    proof -
      have "L (pIndex nx ny i0 j0 (nz - 1))
          = (if (i0, j0) \<in> D then columnLAI LAD nx ny nz dz i0 j0 (nz - 1) else 0)"
        using inv box nz unfolding integrated_def by simp
      then show ?thesis by (simp add: columnLAI_def)
    qed
    have k1: "k \<le> int n" using b(6) n by simp
    have "?L' (pIndex nx ny i0 j0 k)
        = L (pIndex nx ny i0 j0 (nz - 1)) + (\<Sum>k' \<in> {k..nz - 2}. trapezoid LAD nx ny dz i0 j0 k')"
      using column_pass_own[OF box b(5) k1, of LAD dz L, unfolded n(1)] by simp
    with True top show ?thesis by (simp add: columnLAI_def)
  next
    case False
    have "\<forall>k'. 0 \<le> k' \<and> k' \<le> int n - 1 \<longrightarrow> pIndex nx ny i j k \<noteq> pIndex nx ny i0 j0 k'"
      using pIndex_inj[OF b(1-4) box] False by auto
    then have "fold (trapezoidStep LAD nx ny dz i0 j0) (rev [0..int n - 1]) L (pIndex nx ny i j k)
        = L (pIndex nx ny i j k)"
      by (rule column_pass_other)
    then have "?L' (pIndex nx ny i j k) = L (pIndex nx ny i j k)"
      by (simp only: n(2))
    moreover have "L (pIndex nx ny i j k) = (if (i, j) \<in> D then columnLAI LAD nx ny nz dz i j k else 0)"
      using inv b unfolding integrated_def by simp
    ultimately show ?thesis using False by auto
  qed
  then show ?thesis unfolding integrated_def by blast
qed

lemma integrated_rows:
  assumes nz: "1 \<le> nz" and box: "0 \<le> i0" "i0 < nx"
  shows "\<forall>j\<in>set js. 0 \<le> j \<and> j < ny \<Longrightarrow> integrated LAD nx ny nz dz D L \<Longrightarrow>
     integrated LAD nx ny nz dz (D \<union> {i0} \<times> set js)
       (fold (\<lambda>j. fold (trapezoidStep LAD nx ny dz i0 j) (rev [0..nz - 2])) js L)"
proof (induction js arbitrary: D L)
  case Nil
  then show ?case by simp
next
  case (Cons j js)
  have j: "0 \<le> j" "j < ny" using Cons.prems(1) by simp_all
  have rest: "\<forall>j\<in>set js. 0 \<le> j \<and> j < ny" using Cons.prems(1) by simp
  note step = integrated_column[OF nz box j Cons.prems(2)]
  have "insert (i0, j) D \<union> {i0} \<times> set js = D \<union> {i0} \<times> set (j # js)" by auto
  with Cons.IH[OF rest step] show ?case by simp
qed

lemma integrated_all:
  assumes nz: "1 \<le> nz"
  shows "\<forall>i\<in>set is. 0 \<le> i \<and> i < nx \<Longrightarrow> \<forall>j\<in>set js. 0 \<le> j \<and> j < ny \<Longrightarrow>
     integrated LAD nx ny nz dz D L \<Longrightarrow>
     integrated LAD nx ny nz dz (D \<union> set is \<times> set js)
       (fold (\<lambda>i. fold (\<lambda>j. fold (trapezoidStep LAD nx ny dz i j) (rev [0..nz - 2])) js) is L)"
proof (induction "is" arbitrary: D L)
  case Nil
  then show ?case by simp
next
  case (Cons i "is")
  have i: "0 \<le> i" "i < nx" using Cons.prems(1) by simp_all
  have rest: "\<forall>i\<in>set is. 0 \<le> i \<and> i < nx" using Cons.prems(1) by simp
  note step = integrated_rows[OF nz i Cons.prems(2,3)]
  have "(D \<union> {i} \<times> set js) \<union> set is \<times> set js = D \<union> set (i # is) \<times> set js" by auto
  with Cons.IH[OF rest Cons.prems(2) step] show ?case by simp
qed

lemma integrateLAD_value:
  assumes "1 \<le> nz" "0 \<le> i" "i < nx" "0 \<le> j" "j < ny" "0 \<le> k" "k \<le> nz - 1"
  shows "integrateLAD LAD nx ny nz dz (pIndex nx ny i j k) = columnLAI LAD nx ny nz dz i j k"
proof -
  have "integrated LAD nx ny nz dz {} (\<lambda>_. 0)" by (simp add: integrated_def)
  then have "integrated LAD nx ny nz dz ({} \<union> set [0..nx - 1] \<times> set [0..ny - 1])
      (integrateLAD LAD nx ny nz dz)"
    unfolding integrateLAD_def by (intro integrated_all assms(1)) simp_all
  then show ?thesis using assms unfolding integrated_def by simp
qed

lemma uniformCanopy_at:
  assumes "0 \<le> i" "i < nx" "0 \<le> j" "j < ny"
  shows "uniformCanopy nx ny a b d (pIndex nx ny i j k) = (if a \<le> k \<and> k \<le> b then d else 0)"
  by (simp add: uniformCanopy_def pIndex_layer[OF assms])

lemma sum_layer:
  fixes d :: real
  assumes "lo \<le> a" "a \<le> b + 1" "b \<le> hi"
  shows "(\<Sum>k \<in> {lo..hi}. if a \<le> k \<and> k \<le> b then d else 0) = of_int (b - a + 1) * d"
proof -
  have "(\<Sum>k \<in> {lo..hi}. if a \<le> k \<and> k \<le> b then d else 0)
      = (\<Sum>k \<in> {a..b}. if a \<le> k \<and> k \<le> b then d else 0)"
    using assms by (intro sum.mono_neutral_right) auto
  also have "\<dots> = (\<Sum>k \<in> {a..b}. d)" by (intro sum.cong) auto
  also have "\<dots> = of_int (b - a + 1) * d" using assms(2) by simp
  finally show ?thesis .
qed

lemma columnLAI_canopy_split:
  assumes box: "0 \<le> i" "i < nx" "0 \<le> j" "j < ny"
  shows "columnLAI (uniformCanopy nx ny a b d) nx ny nz dz i j k
       = 0.5 * dz * ((\<Sum>k' \<in> {k..nz - 2}. if a \<le> k' \<and> k' \<le> b then d else 0)
                   + (\<Sum>k' \<in> {k..nz - 2}. if a - 1 \<le> k' \<and> k' \<le> b - 1 then d else 0))"
proof -
  have "trapezoid (uniformCanopy nx ny a b d) nx ny dz i j k'
      = 0.5 * dz * ((if a \<le> k' \<and> k' \<le> b then d else 0)
                    + (if a - 1 \<le> k' \<and> k' \<le> b - 1 then d else 0))" for k'
    by (simp add: trapezoid_def uniformCanopy_at[OF box])
  then have "columnLAI (uniformCanopy nx ny a b d) nx ny nz dz i j k
      = (\<Sum>k' \<in> {k..nz - 2}. 0.5 * dz * ((if a \<le> k' \<and> k' \<le> b then d else 0)
                    + (if a - 1 \<le> k' \<and> k' \<le> b - 1 then d else 0)))"
    unfolding columnLAI_def by (intro sum.cong refl)
  also have "\<dots> = 0.5 * dz * (\<Sum>k' \<in> {k..nz - 2}. (if a \<le> k' \<and> k' \<le> b then d else 0)
                    + (if a - 1 \<le> k' \<and> k' \<le> b - 1 then d else 0))"
    by (simp only: sum_distrib_left)
  also have "\<dots> = 0.5 * dz * ((\<Sum>k' \<in> {k..nz - 2}. if a \<le> k' \<and> k' \<le> b then d else 0)
                   + (\<Sum>k' \<in> {k..nz - 2}. if a - 1 \<le> k' \<and> k' \<le> b - 1 then d else 0))"
    by (simp only: sum.distrib)
  finally show ?thesis .
qed

lemma columnLAI_below_canopy:
  assumes box: "0 \<le> i" "i < nx" "0 \<le> j" "j < ny"
    and "k < a" "a \<le> b" "b \<le> nz - 2"
  shows "columnLAI (uniformCanopy nx ny a b d) nx ny nz dz i j k = d * (of_int (b - a + 1) * dz)"
proof -
  have 1: "(\<Sum>k' \<in> {k..nz - 2}. if a \<le> k' \<and> k' \<le> b then d else 0) = of_int (b - a + 1) * d"
    using assms(5-7) by (intro sum_layer) simp_all
  have 2: "(\<Sum>k' \<in> {k..nz - 2}. if a - 1 \<le> k' \<and> k' \<le> b - 1 then d else 0)
      = of_int ((b - 1) - (a - 1) + 1) * d"
    using assms(5-7) by (intro sum_layer) simp_all
  show ?thesis
    unfolding columnLAI_canopy_split[OF box] 1 2 by (simp add: algebra_simps)
qed

text \<open>
  At the lowest canopy layer itself the sum stops half a cell short: the value below is reached
  one node further down.
\<close>

lemma columnLAI_lowest_canopy_node:
  assumes box: "0 \<le> i" "i < nx" "0 \<le> j" "j < ny"
    and "a \<le> b" "b \<le> nz - 2"
  shows "columnLAI (uniformCanopy nx ny a b d) nx ny nz dz i j a
       = d * ((of_int (b - a) + 1 / 2) * dz)"
proof -
  have 1: "(\<Sum>k' \<in> {a..nz - 2}. if a \<le> k' \<and> k' \<le> b then d else 0) = of_int (b - a + 1) * d"
    using assms(5-6) by (intro sum_layer) simp_all
  have "(\<Sum>k' \<in> {a..nz - 2}. if a - 1 \<le> k' \<and> k' \<le> b - 1 then d else 0)
      = (\<Sum>k' \<in> {a..nz - 2}. if a \<le> k' \<and> k' \<le> b - 1 then d else 0)"
    by (intro sum.cong) auto
  also have "\<dots> = of_int ((b - 1) - a + 1) * d"
    using assms(5-6) by (intro sum_layer) simp_all
  finally have 2: "(\<Sum>k' \<in> {a..nz - 2}. if a - 1 \<le> k' \<and> k' \<le> b - 1 then d else 0)
      = of_int (b - a) * d" by simp
  show ?thesis
    unfolding columnLAI_canopy_split[OF box] 1 2 by (simp add: algebra_simps)
qed

text \<open>
  C5. Take a canopy of uniform leaf-area density \<open>d\<close> that fills the grid layers \<open>a\<close> to \<open>b\<close>,
  strictly inside the rotated grid, so that its thickness is \<open>h = (b - a + 1) dz\<close>. At every node
  below the canopy, in every column, the field that \<^verbatim>\<open>integrateLAD\<close> returns holds exactly
  \<open>d h\<close>, and the transmitted intensity computed from it is exactly \<open>I exp(- kc d h)\<close>; the
  extinction coefficient defaults to 0.5.
\<close>

theorem C5_uniform_canopy_LAI:
  assumes "0 \<le> i" and "i < nxRot" and "0 \<le> j" and "j < nyRot"
    and "0 \<le> k" and "k < a" and "a \<le> b" and "b \<le> nzRot - 2"
    and "h = of_int (b - a + 1) * dpz"
  shows "integrateLAD (uniformCanopy nxRot nyRot a b d) nxRot nyRot nzRot dpz (pIndex nxRot nyRot i j k)
           = d * h
       \<and> qrswInterpRot IDNy kc (integrateLAD (uniformCanopy nxRot nyRot a b d) nxRot nyRot nzRot dpz)
             (pIndex nxRot nyRot i j k)
           = IDNy * exp (- kc * (d * h))
       \<and> kcOf Map.empty = 0.5"
proof -
  have nz: "1 \<le> nzRot" "k \<le> nzRot - 1" using assms(5-8) by simp_all
  have "integrateLAD (uniformCanopy nxRot nyRot a b d) nxRot nyRot nzRot dpz (pIndex nxRot nyRot i j k)
      = columnLAI (uniformCanopy nxRot nyRot a b d) nxRot nyRot nzRot dpz i j k"
    using nz assms(1-5) by (intro integrateLAD_value) simp_all
  also have "\<dots> = d * h"
    using columnLAI_below_canopy[OF assms(1-4) assms(6-8)] assms(9) by simp
  finally show ?thesis by (simp add: qrswInterpRot_def kcOf_def)
qed

theorem C5_uniform_canopy_LAI_witness:
  "integrateLAD (uniformCanopy 1 1 1 1 2) 1 1 4 (1 / 2) (pIndex 1 1 0 0 0) = 1
 \<and> qrswInterpRot 800 (1 / 2) (integrateLAD (uniformCanopy 1 1 1 1 2) 1 1 4 (1 / 2)) (pIndex 1 1 0 0 0)
     = 800 * exp (- (1 / 2))"
  using C5_uniform_canopy_LAI[of 0 1 0 1 0 1 1 4 "1 / 2" "1 / 2" 2 800 "1 / 2"]
  by simp

subsection \<open>C6: obstructed and unobstructed rays in the leaf-area pre-pass\<close>

lemma writeBack_steps:
  "fold (\<lambda>i L'. L'[I ! i := V ! i]) [0..<Suc n] L
     = (fold (\<lambda>i L'. L'[I ! i := V ! i]) [0..<n] L)[I ! n := V ! n]"
  by simp

lemma writeBack_length_aux:
  "length (fold (\<lambda>i L'. L'[I ! i := V ! i]) [0..<n] L) = length L"
  by (induction n) simp_all

lemma writeBack_other_aux:
  "n \<le> length I \<Longrightarrow> c \<notin> set I \<Longrightarrow> fold (\<lambda>i L'. L'[I ! i := V ! i]) [0..<n] L ! c = L ! c"
proof (induction n)
  case 0
  then show ?case by simp
next
  case (Suc n)
  then have "I ! n \<in> set I" by simp
  with Suc.prems have "I ! n \<noteq> c" by auto
  with Suc show ?case by (simp only: writeBack_steps) simp
qed

lemma writeBack_own_aux:
  "n \<le> length I \<Longrightarrow> distinct I \<Longrightarrow> \<forall>i\<in>set I. i < length L \<Longrightarrow> p < n \<Longrightarrow>
   fold (\<lambda>i L'. L'[I ! i := V ! i]) [0..<n] L ! (I ! p) = V ! p"
proof (induction n)
  case 0
  then show ?case by simp
next
  case (Suc n)
  have n: "n < length I" using Suc.prems(1) by simp
  show ?case
  proof (cases "p = n")
    case True
    have "I ! n < length L" using n Suc.prems(3) by simp
    then show ?thesis using True
      by (simp only: writeBack_steps) (simp add: writeBack_length_aux)
  next
    case False
    with Suc.prems have p: "p < n" by simp
    then have "I ! p \<noteq> I ! n" using n Suc.prems(2) by (simp add: nth_eq_iff_index_eq)
    moreover have "fold (\<lambda>i L'. L'[I ! i := V ! i]) [0..<n] L ! (I ! p) = V ! p"
      using Suc.IH Suc.prems p by simp
    ultimately show ?thesis by (simp only: writeBack_steps) simp
  qed
qed

lemma writeBack_other:
  "length V = length I \<Longrightarrow> c \<notin> set I \<Longrightarrow> writeBack I V L ! c = L ! c"
  by (simp add: writeBack_def writeBack_other_aux)

lemma writeBack_own:
  "length V = length I \<Longrightarrow> distinct I \<Longrightarrow> \<forall>i\<in>set I. i < length L \<Longrightarrow> p < length I \<Longrightarrow>
   writeBack I V L ! (I ! p) = V ! p"
  by (simp add: writeBack_def writeBack_own_aux)

lemma queued_Suc:
  "queued active hit (Suc n) = (if active n \<and> \<not> hit n then queued active hit n @ [n] else queued active hit n)"
  by (simp add: queued_def)

lemma queue_fold:
  "\<forall>r<n. active r \<longrightarrow> idx r < length L0 \<Longrightarrow>
   \<exists>Ln. fold (queueStep active hit idx pt guard) [0..<n] ([], [], L0)
          = (map pt (queued active hit n), map idx (queued active hit n), Ln)
      \<and> length Ln = length L0
      \<and> (\<forall>c<length L0. Ln ! c = (if \<exists>r<n. active r \<and> hit r \<and> guard r \<and> idx r = c
                                   then 1000 else L0 ! c))"
proof (induction n)
  case 0
  then show ?case by (simp add: queued_def)
next
  case (Suc n)
  from Suc.prems have "\<forall>r<n. active r \<longrightarrow> idx r < length L0" by simp
  from Suc.IH[OF this] obtain Ln where Ln: "fold (queueStep active hit idx pt guard) [0..<n] ([], [], L0)
          = (map pt (queued active hit n), map idx (queued active hit n), Ln)"
      "length Ln = length L0"
      "\<forall>c<length L0. Ln ! c = (if \<exists>r<n. active r \<and> hit r \<and> guard r \<and> idx r = c
                                   then 1000 else L0 ! c)"
    by blast
  have step: "fold (queueStep active hit idx pt guard) [0..<Suc n] ([], [], L0)
      = queueStep active hit idx pt guard n
          (map pt (queued active hit n), map idx (queued active hit n), Ln)"
    by (simp add: Ln(1))
  have less: "(\<exists>r<Suc n. Q r) \<longleftrightarrow> (\<exists>r<n. Q r) \<or> Q n" for Q
    by (auto simp: less_Suc_eq)
  consider (inactive) "\<not> active n" | (free) "active n" "\<not> hit n"
    | (blocked) "active n" "hit n" "guard n" | (bare) "active n" "hit n" "\<not> guard n"
    by blast
  then show ?case
  proof cases
    case inactive
    have "fold (queueStep active hit idx pt guard) [0..<Suc n] ([], [], L0)
        = (map pt (queued active hit (Suc n)), map idx (queued active hit (Suc n)), Ln)"
      using inactive unfolding step by (simp add: queueStep_def queued_Suc)
    moreover have "\<forall>c<length L0. Ln ! c
        = (if \<exists>r<Suc n. active r \<and> hit r \<and> guard r \<and> idx r = c then 1000 else L0 ! c)"
      using inactive Ln(3) by (simp add: less)
    ultimately show ?thesis using Ln(2) by blast
  next
    case free
    have "fold (queueStep active hit idx pt guard) [0..<Suc n] ([], [], L0)
        = (map pt (queued active hit (Suc n)), map idx (queued active hit (Suc n)), Ln)"
      using free unfolding step by (simp add: queueStep_def queued_Suc)
    moreover have "\<forall>c<length L0. Ln ! c
        = (if \<exists>r<Suc n. active r \<and> hit r \<and> guard r \<and> idx r = c then 1000 else L0 ! c)"
      using free Ln(3) by (simp add: less)
    ultimately show ?thesis using Ln(2) by blast
  next
    case blocked
    have b: "idx n < length L0" using Suc.prems blocked(1) by simp
    have "fold (queueStep active hit idx pt guard) [0..<Suc n] ([], [], L0)
        = (map pt (queued active hit (Suc n)), map idx (queued active hit (Suc n)), Ln[idx n := 1000])"
      using blocked unfolding step by (simp add: queueStep_def queued_Suc)
    moreover have "\<forall>c<length L0. Ln[idx n := 1000] ! c
        = (if \<exists>r<Suc n. active r \<and> hit r \<and> guard r \<and> idx r = c then 1000 else L0 ! c)"
    proof (intro allI impI)
      fix c assume c: "c < length L0"
      show "Ln[idx n := 1000] ! c
        = (if \<exists>r<Suc n. active r \<and> hit r \<and> guard r \<and> idx r = c then 1000 else L0 ! c)"
      proof (cases "c = idx n")
        case True
        have "\<exists>r<Suc n. active r \<and> hit r \<and> guard r \<and> idx r = c"
          using blocked True by blast
        moreover have "Ln[idx n := 1000] ! c = 1000" using True b Ln(2) by simp
        ultimately show ?thesis by simp
      next
        case False
        then have "Ln[idx n := 1000] ! c = Ln ! c" by simp
        moreover have "(\<exists>r<Suc n. active r \<and> hit r \<and> guard r \<and> idx r = c)
            \<longleftrightarrow> (\<exists>r<n. active r \<and> hit r \<and> guard r \<and> idx r = c)"
          using False by (auto simp: less)
        ultimately show ?thesis using Ln(3) c by simp
      qed
    qed
    moreover have "length (Ln[idx n := 1000]) = length L0" using Ln(2) by simp
    ultimately show ?thesis by blast
  next
    case bare
    have "fold (queueStep active hit idx pt guard) [0..<Suc n] ([], [], L0)
        = (map pt (queued active hit (Suc n)), map idx (queued active hit (Suc n)), Ln)"
      using bare unfolding step by (simp add: queueStep_def queued_Suc)
    moreover have "\<forall>c<length L0. Ln ! c
        = (if \<exists>r<Suc n. active r \<and> hit r \<and> guard r \<and> idx r = c then 1000 else L0 ! c)"
      using bare Ln(3) by (simp add: less)
    ultimately show ?thesis using Ln(2) by blast
  qed
qed

lemma queued_set: "set (queued active hit n) = {r. r < n \<and> active r \<and> \<not> hit r}"
  by (auto simp: queued_def)

lemma queued_distinct: "distinct (queued active hit n)"
  by (simp add: queued_def)

lemma queue_final:
  assumes bound: "\<forall>r<n. active r \<longrightarrow> idx r < length L0"
    and inj: "\<forall>r<n. \<forall>r'<n. active r \<and> active r' \<and> idx r = idx r' \<longrightarrow> r = r'"
    and fold: "fold (queueStep active hit idx pt guard) [0..<n] ([], [], L0) = (P, I, L)"
    and r: "r < n" "active r"
  shows "writeBack I (map g P) L ! idx r
       = (if \<not> hit r then g (pt r) else if guard r then 1000 else L0 ! idx r)"
proof -
  let ?Q = "queued active hit n"
  from queue_fold[OF bound, of hit pt guard] fold
  have P: "P = map pt ?Q" and I: "I = map idx ?Q" and len: "length L = length L0"
    and L: "\<forall>c<length L0. L ! c = (if \<exists>r<n. active r \<and> hit r \<and> guard r \<and> idx r = c
                                   then 1000 else L0 ! c)"
    by auto
  have lenV: "length (map g P) = length I" by (simp add: P I)
  have "inj_on idx (set ?Q)"
    using inj by (auto simp: inj_on_def queued_set)
  then have dist: "distinct I" by (simp add: I distinct_map queued_distinct)
  have inb: "\<forall>i\<in>set I. i < length L" using bound by (auto simp: I len queued_set)
  show ?thesis
  proof (cases "hit r")
    case False
    then have "r \<in> set ?Q" using r by (simp add: queued_set)
    then obtain p where p: "p < length ?Q" "?Q ! p = r" by (auto simp: in_set_conv_nth)
    then have "I ! p = idx r" "map g P ! p = g (pt r)" "p < length I" by (simp_all add: I P)
    with writeBack_own[OF lenV dist inb, of p] False show ?thesis by simp
  next
    case True
    have "idx r \<notin> set I"
    proof
      assume "idx r \<in> set I"
      then obtain r' where r': "r' \<in> set ?Q" "idx r' = idx r" by (auto simp: I)
      then have "r' < n" "active r'" "\<not> hit r'" by (simp_all add: queued_set)
      with inj r r'(2) have "r' = r" by metis
      with \<open>\<not> hit r'\<close> True show False by simp
    qed
    then have "writeBack I (map g P) L ! idx r = L ! idx r" using lenV by (rule writeBack_other[rotated])
    moreover have "idx r < length L0" using bound r by simp
    moreover have "(\<exists>r'<n. active r' \<and> hit r' \<and> guard r' \<and> idx r' = idx r) \<longleftrightarrow> guard r"
      using inj r True by metis
    ultimately show ?thesis using L True by simp
  qed
qed

lemma cellRayStep_queueStep:
  "cellRayStep SMALL LAD pmeshCRot insideCellIList pHitList
     = queueStep (\<lambda>_. True) (\<lambda>r. pHitList ! r) (\<lambda>r. insideCellIList ! r)
         (\<lambda>r. pmeshCRot ! (insideCellIList ! r)) (\<lambda>r. LAD ! (insideCellIList ! r) > 10 * SMALL)"
  by (intro ext) (simp add: cellRayStep_def queueStep_def Let_def)

lemma cellLAI_value:
  assumes "distinct insideCellIList" and "length pHitList = length insideCellIList"
    and "\<forall>c\<in>set insideCellIList. c < nMeshCells" and "rayI < length pHitList"
  shows "cellLAI SMALL LAD pmeshCRot insideCellIList pHitList nMeshCells LAIInterpRot nxRot nyRot pminRot dp
           ! (insideCellIList ! rayI)
       = (if \<not> pHitList ! rayI
          then interp3D (pmeshCRot ! (insideCellIList ! rayI)) LAIInterpRot nxRot nyRot pminRot dp
          else if LAD ! (insideCellIList ! rayI) > 10 * SMALL then 1000 else 0)"
proof -
  obtain P I L where f: "cellRays SMALL LAD pmeshCRot insideCellIList pHitList (replicate nMeshCells 0)
      = (P, I, L)" by (metis prod_cases3)
  then have fold: "fold (queueStep (\<lambda>_. True) (\<lambda>r. pHitList ! r) (\<lambda>r. insideCellIList ! r)
         (\<lambda>r. pmeshCRot ! (insideCellIList ! r)) (\<lambda>r. LAD ! (insideCellIList ! r) > 10 * SMALL))
       [0..<length pHitList] ([], [], replicate nMeshCells 0) = (P, I, L)"
    by (simp add: cellRays_def cellRayStep_queueStep)
  have bound: "\<forall>r<length pHitList. True \<longrightarrow> insideCellIList ! r < length (replicate nMeshCells (0::real))"
    using assms(2,3) by simp
  have inj: "\<forall>r<length pHitList. \<forall>r'<length pHitList.
      True \<and> True \<and> insideCellIList ! r = insideCellIList ! r' \<longrightarrow> r = r'"
    using assms(1,2) by (simp add: nth_eq_iff_index_eq)
  have c: "insideCellIList ! rayI < nMeshCells" using assms(2,3,4) by simp
  from queue_final[OF bound inj fold assms(4), of "\<lambda>ptemp. interp3D ptemp LAIInterpRot nxRot nyRot pminRot dp"]
  show ?thesis using c by (simp add: cellLAI_def f)
qed

lemma insideBefore_Suc:
  "p < length visited \<Longrightarrow>
   insideBefore inside visited (Suc p)
     = insideBefore inside visited p + (if inside ! fst (visited ! p) then 1 else 0)"
  by (simp add: insideBefore_def take_Suc_conv_app_nth case_prod_beta)

lemma faceStep_fold:
  "p \<le> length visited \<Longrightarrow>
   fold (faceStep inside hits T Cf) (take p visited) (0, [], [], L0)
     = (insideBefore inside visited p,
        fold (queueStep (\<lambda>q. inside ! fst (visited ! q))
                (\<lambda>q. hits ! insideBefore inside visited q)
                (\<lambda>q. snd (visited ! q)) (\<lambda>q. T (Cf ! fst (visited ! q))) (\<lambda>_. True))
          [0..<p] ([], [], L0))"
proof (induction p)
  case 0
  then show ?case by (simp add: insideBefore_def)
next
  case (Suc p)
  then have p: "p < length visited" by simp
  obtain P I L where q: "fold (queueStep (\<lambda>q. inside ! fst (visited ! q))
                (\<lambda>q. hits ! insideBefore inside visited q)
                (\<lambda>q. snd (visited ! q)) (\<lambda>q. T (Cf ! fst (visited ! q))) (\<lambda>_. True))
          [0..<p] ([], [], L0) = (P, I, L)" by (metis prod_cases3)
  have "fold (faceStep inside hits T Cf) (take (Suc p) visited) (0, [], [], L0)
      = faceStep inside hits T Cf (visited ! p) (insideBefore inside visited p, P, I, L)"
    using Suc.IH p by (simp add: take_Suc_conv_app_nth q)
  also have "\<dots> = (insideBefore inside visited (Suc p),
      queueStep (\<lambda>q. inside ! fst (visited ! q))
                (\<lambda>q. hits ! insideBefore inside visited q)
                (\<lambda>q. snd (visited ! q)) (\<lambda>q. T (Cf ! fst (visited ! q))) (\<lambda>_. True) p (P, I, L))"
    by (cases "visited ! p") (simp add: faceStep_def queueStep_def insideBefore_Suc[OF p])
  finally show ?case by (simp add: q)
qed

lemma faceKcLAI_value:
  assumes "distinct (map snd visited)" and "\<forall>fk\<in>set visited. snd fk < vegNCoarseFacesAll"
    and "p < length visited" and "inside ! fst (visited ! p)"
  shows "faceKcLAI inside hits T Cf visited vegNCoarseFacesAll kc LAIInterpRot nxRot nyRot pminRot dp
           ! snd (visited ! p)
       = (if \<not> hits ! insideBefore inside visited p
          then kc * interp3D (T (Cf ! fst (visited ! p))) LAIInterpRot nxRot nyRot pminRot dp
          else 1000)"
proof -
  let ?n = "length visited"
  obtain P I L where q: "fold (queueStep (\<lambda>q. inside ! fst (visited ! q))
                (\<lambda>q. hits ! insideBefore inside visited q)
                (\<lambda>q. snd (visited ! q)) (\<lambda>q. T (Cf ! fst (visited ! q))) (\<lambda>_. True))
          [0..<?n] ([], [], replicate vegNCoarseFacesAll 0) = (P, I, L)" by (metis prod_cases3)
  have f: "fold (faceStep inside hits T Cf) visited (0, [], [], replicate vegNCoarseFacesAll 0)
      = (insideBefore inside visited ?n, P, I, L)"
    using faceStep_fold[of ?n visited inside hits T Cf "replicate vegNCoarseFacesAll 0"] q by simp
  have bound: "\<forall>r<?n. inside ! fst (visited ! r)
      \<longrightarrow> snd (visited ! r) < length (replicate vegNCoarseFacesAll (0::real))"
    using assms(2) by simp
  have inj: "\<forall>r<?n. \<forall>r'<?n. inside ! fst (visited ! r) \<and> inside ! fst (visited ! r')
      \<and> snd (visited ! r) = snd (visited ! r') \<longrightarrow> r = r'"
  proof (intro allI impI)
    fix r r' assume a: "r < ?n" "r' < ?n"
      "inside ! fst (visited ! r) \<and> inside ! fst (visited ! r') \<and> snd (visited ! r) = snd (visited ! r')"
    then have "map snd visited ! r = map snd visited ! r'" by simp
    with assms(1) a(1,2) show "r = r'" by (simp add: nth_eq_iff_index_eq del: nth_map)
  qed
  from queue_final[OF bound inj q assms(3,4),
      of "\<lambda>ptemp. kc * interp3D ptemp LAIInterpRot nxRot nyRot pminRot dp"]
  show ?thesis by (simp add: faceKcLAI_def f)
qed

text \<open>The walk over two patches of three and two faces, of which the second is selected.\<close>

lemma visited_example: "visitedFaces [1] [3, 2] = [(0, 3), (1, 4)]"
  by (simp add: visitedFaces_def)

text \<open>
  C6, as stated, fails for cells: the saturating value is written only where the cell holds
  vegetation. A cell of the bounding box with no leaf area whose ray is obstructed keeps the
  leaf-area index 0.
\<close>

theorem C6_obstructed_cell_counterexample:
  "cellLAI (1 / 10 ^ 15) [0] [(0, 0, 0)] [0] [True] 1 (\<lambda>_. 0) 1 1 (0, 0, 0) (1, 1, 1) ! 0 = 0
 \<and> cellLAI (1 / 10 ^ 15) [0] [(0, 0, 0)] [0] [True] 1 (\<lambda>_. 0) 1 1 (0, 0, 0) (1, 1, 1) ! 0 \<noteq> 1000"
  by (simp add: cellLAI_def cellRays_def cellRayStep_def writeBack_def)

text \<open>
  C6, amended. For a cell inside the vegetation bounding box: if its ray towards the sun is
  unobstructed, its leaf-area index is the trilinear interpolation of the rotated cumulative
  grid at the rotated cell centre; if the ray is obstructed, it is 1000 where the cell holds
  vegetation (\<open>LAD > 10 SMALL\<close>) and stays 0 where it does not. For a coarse surface element
  inside the bounding box the stored quantity is the product \<open>kc LAI\<close>: \<open>kc\<close> times the
  interpolated value if the ray is unobstructed, and 1000 if it is obstructed.
\<close>

theorem C6_LAI_by_obstruction_amended:
  assumes "distinct insideCellIList" and "length pHitList = length insideCellIList"
    and "\<forall>c\<in>set insideCellIList. c < nMeshCells" and "rayI < length pHitList"
    and "distinct (map snd visited)" and "\<forall>fk\<in>set visited. snd fk < vegNCoarseFacesAll"
    and "p < length visited" and "vegCoarseFaceInsideList ! fst (visited ! p)"
  shows "cellLAI SMALL LAD pmeshCRot insideCellIList pHitList nMeshCells LAIInterpRot nxRot nyRot pminRot dp
           ! (insideCellIList ! rayI)
         = (if \<not> pHitList ! rayI
            then interp3D (pmeshCRot ! (insideCellIList ! rayI)) LAIInterpRot nxRot nyRot pminRot dp
            else if LAD ! (insideCellIList ! rayI) > 10 * SMALL then 1000 else 0)
       \<and> faceKcLAI vegCoarseFaceInsideList vegCoarseFacePHitList T vegLocalCoarseCf visited
             vegNCoarseFacesAll kc LAIInterpRot nxRot nyRot pminRot dp ! snd (visited ! p)
         = (if \<not> vegCoarseFacePHitList ! insideBefore vegCoarseFaceInsideList visited p
            then kc * interp3D (T (vegLocalCoarseCf ! fst (visited ! p))) LAIInterpRot nxRot nyRot pminRot dp
            else 1000)"
  using cellLAI_value[OF assms(1-4)] faceKcLAI_value[OF assms(5-8)] by simp

theorem C6_LAI_by_obstruction_amended_witness:
  "cellLAI (1 / 10 ^ 15) [2, 0] [(0, 0, 0), (1, 0, 0)] [0, 1] [False, True] 2 (\<lambda>_. 3) 2 2
      (0, 0, 0) (1, 1, 1) ! 1 = 0
 \<and> cellLAI (1 / 10 ^ 15) [2, 0] [(0, 0, 0), (1, 0, 0)] [0, 1] [False, True] 2 (\<lambda>_. 3) 2 2
      (0, 0, 0) (1, 1, 1) ! 0 = interp3D (0, 0, 0) (\<lambda>_. 3) 2 2 (0, 0, 0) (1, 1, 1)
 \<and> faceKcLAI [True, True] [True, False] (\<lambda>v. v) [(0, 0, 0), (1, 0, 0)] (visitedFaces [1] [3, 2]) 5
      (1 / 2) (\<lambda>_. 3) 2 2 (0, 0, 0) (1, 1, 1) ! 3 = 1000
 \<and> faceKcLAI [True, True] [True, False] (\<lambda>v. v) [(0, 0, 0), (1, 0, 0)] (visitedFaces [1] [3, 2]) 5
      (1 / 2) (\<lambda>_. 3) 2 2 (0, 0, 0) (1, 1, 1) ! 4
     = (1 / 2) * interp3D (1, 0, 0) (\<lambda>_. 3) 2 2 (0, 0, 0) (1, 1, 1)"
proof -
  have c: "distinct [0, 1 :: nat]" "length [False, True] = length [0, 1 :: nat]"
    "\<forall>c\<in>set [0, 1 :: nat]. c < 2" by simp_all
  have v: "distinct (map snd (visitedFaces [1] [3, 2]))"
    "\<forall>fk\<in>set (visitedFaces [1] [3, 2]). snd fk < 5"
    unfolding visited_example by simp_all
  have p0: "(0 :: nat) < length (visitedFaces [1] [3, 2])"
    "[True, True] ! fst (visitedFaces [1] [3, 2] ! 0)" unfolding visited_example by simp_all
  have p1: "(1 :: nat) < length (visitedFaces [1] [3, 2])"
    "[True, True] ! fst (visitedFaces [1] [3, 2] ! 1)" unfolding visited_example by simp_all
  have r0: "(0 :: nat) < length [False, True]" and r1: "(1 :: nat) < length [False, True]" by simp_all
  note a = C6_LAI_by_obstruction_amended[OF c r1 v p0, of "1 / 10 ^ 15" "[2, 0]"
      "[(0, 0, 0), (1, 0, 0)]" "\<lambda>_. 3" 2 2 "(0, 0, 0)" "(1, 1, 1)" "[True, False]" "\<lambda>v. v"
      "[(0, 0, 0), (1, 0, 0)]" "1 / 2"]
  note b = C6_LAI_by_obstruction_amended[OF c r0 v p1, of "1 / 10 ^ 15" "[2, 0]"
      "[(0, 0, 0), (1, 0, 0)]" "\<lambda>_. 3" 2 2 "(0, 0, 0)" "(1, 1, 1)" "[True, False]" "\<lambda>v. v"
      "[(0, 0, 0), (1, 0, 0)]" "1 / 2"]
  from a[unfolded visited_example] b[unfolded visited_example] show ?thesis
    unfolding visited_example by (simp add: insideBefore_def)
qed

subsection \<open>C8: bounded temperatures in the leaf and grass iterations\<close>



lemma grass_clamp_id:
  "v \<noteq> NaN \<Longrightarrow> \<not> (v < Tg_min \<or> v > Tg_max) \<Longrightarrow> max_scalar (min_scalar v Tg_max) Tg_min = v"
  by (cases v) (simp_all add: Tg_min_def Tg_max_def max_scalar_def min_scalar_def)

text \<open>
  A value that is not a number fails both comparisons of the leaf loop: it is stored as it is
  and does not raise the flag. It also stays: the new leaf temperature computed from a leaf
  temperature that is not a number is not a number.
\<close>

lemma vegCellStep_NaN:
  assumes "cLAD (cells ! cellI) > Fin (10 * vSMALL K)"
    and "new_Tl_raw K (cells ! cellI) (Tl ! cellI) = NaN"
  shows "vegCellStep K cells Tl cellI (new_Tl, boundTl) = (new_Tl[cellI := NaN], boundTl)"
  using assms by (simp add: vegCellStep_def Tl_min_def Tl_max_def)

lemma calc_evsat_NaN: "calc_evsat NaN = NaN"
  by (simp add: calc_evsat_def minus_doubleScalar_def)

lemma NaN_absorbs:
  "NaN + a = NaN" "a + NaN = NaN" "NaN - a = NaN" "a - NaN = NaN"
  "NaN * a = NaN" "a * NaN = NaN" "NaN / a = NaN" "a / NaN = NaN"
  by (cases a; simp add: minus_doubleScalar_def)+

lemma new_Tl_raw_NaN: "new_Tl_raw K c NaN = NaN"
  by (simp add: new_Tl_raw_def calc_evsat_NaN NaN_absorbs Let_def)










text \<open>
  A field whose first value is not a number has no minimum and no maximum that a comparison
  could find out of range: the grass loop then bounds nothing and prints no warning.
\<close>

lemma not_less_NaN: "\<not> a < NaN" "\<not> NaN < a"
  by (cases a; simp)+

lemma fold_min_NaN: "fold (\<lambda>x Min. min_scalar x Min) f NaN = NaN"
  by (induction f) (simp_all add: min_scalar_def not_less_NaN)

lemma fold_max_NaN: "fold (\<lambda>x Max. max_scalar x Max) f NaN = NaN"
  by (induction f) (simp_all add: max_scalar_def)

lemma field_first_NaN:
  "f \<noteq> [] \<Longrightarrow> hd f = NaN \<Longrightarrow> gMin VGREAT f = NaN \<and> gMax VGREAT f = NaN"
  by (simp add: gMin_def gMax_def fold_min_NaN fold_max_NaN)

lemma grassIteration_first_NaN:
  assumes "map2 (Tg_new_raw G) faces (fst (grassIteration G faces i Tg)) \<noteq> []"
    and "hd (map2 (Tg_new_raw G) faces (fst (grassIteration G faces i Tg))) = NaN"
  shows "fst (snd (grassIteration G faces i Tg))
           = map2 (Tg_new_raw G) faces (fst (grassIteration G faces i Tg))
       \<and> BoundingWarning \<notin> set (fst (snd (snd (grassIteration G faces i Tg))))"
proof -
  let ?Tg0 = "if i = 1 \<and> gMin (gVGREAT G) Tg < Fin (gSMALL G) then map fTc faces else Tg"
  have T0: "fst (grassIteration G faces i Tg) = ?Tg0" by (simp add: grassIteration_def Let_def)
  from field_first_NaN[OF assms[unfolded T0]] show ?thesis
    unfolding T0 by (simp add: grassIteration_def Let_def not_less_NaN)
qed

text \<open>The two examples, pass by pass.\<close>

lemma evsat_one: "\<exists>b. b < 0 \<and> calc_evsat (Fin 1) = Fin (exp b)"
  by (rule exI[of _ "- 5800.2206 + 1.3914993 - 0.048640239 + 0.000041764768 - 0.000000014452093"])
     (simp add: calc_evsat_def minus_doubleScalar_def numeral_2_eq_2 numeral_3_eq_3)

lemma evsat_pos: "0 < t \<Longrightarrow> \<exists>b. calc_evsat (Fin t) = Fin (exp b)"
  by (simp add: calc_evsat_def minus_doubleScalar_def numeral_2_eq_2 numeral_3_eq_3)

lemma hot_rs: "\<exists>r. 0 < r \<and> rs_of stillCoeffs hotCell = Fin r"
proof -
  obtain b where b: "calc_evsat (Fin 500) = Fin (exp b)" using evsat_pos[of 500] by auto
  have "rs_of stillCoeffs hotCell = Fin ((7.119 + 0.6174) * (0.4372 * (exp b + 1) powr 0.204))"
    using exp_gt_zero[of b]
    by (simp add: rs_of_def hotCell_def stillCoeffs_def b Let_def minus_doubleScalar_def not_less add_nonneg_nonneg)
  moreover have "0 < exp b + 1" using exp_gt_zero[of b] by linarith
  then have "0 < (7.119 + 0.6174) * (0.4372 * (exp b + 1) powr 0.204)"
    by simp
  ultimately show ?thesis by blast
qed

lemma hotCell_raw: "new_Tl_raw stillCoeffs hotCell (Fin 1) = Fin 500"
proof -
  obtain b where b: "b < 0" "calc_evsat (Fin 1) = Fin (exp b)" using evsat_one by auto
  obtain r where r: "0 < r" "rs_of stillCoeffs hotCell = Fin r" using hot_rs by auto
  have ra: "ra_of stillCoeffs hotCell = Fin 0"
    by (simp add: ra_of_def stillCoeffs_def hotCell_def)
  have "exp b < 1" using b(1) by simp
  then have e: "exp b \<noteq> 101325" by linarith
  have c: "cLAD hotCell = Fin 1" "cT hotCell = Fin 500" "cq hotCell = Fin 0" "cRn hotCell = Fin 0"
      "cRg hotCell = Fin 0"
    by (simp_all add: hotCell_def)
  have k: "vSMALL stillCoeffs = 1 / 10 ^ 15" "vnEvapSides stillCoeffs = 1" "vrhoa stillCoeffs = 1"
      "vcpa stillCoeffs = 1" "vlambda stillCoeffs = 1"
    by (simp_all add: stillCoeffs_def)
  show ?thesis
    using e r(1)
    by (simp add: new_Tl_raw_def ra r(2) b(2) c k Let_def minus_doubleScalar_def pos_def
        less_eq_doubleScalar_def)
qed

lemma new_Tl_raw_residual [simp]:
  "new_Tl_raw (K\<lparr>Tl_residualControl := r\<rparr>) c Tl = new_Tl_raw K c Tl"
  by (simp add: new_Tl_raw_def ra_of_def rs_of_def)

lemma hot_pass:
  "vegIteration (stillCoeffs\<lparr>Tl_residualControl := r\<rparr>) [hotCell] i ([Fin 1], [x])
     = (([Fin 1], [Fin 400]), [BoundingWarning, MaxTemp (Fin 400) i], Fin (399 / 400))"
proof -
  have v: "cLAD hotCell > Fin (10 * vSMALL (stillCoeffs\<lparr>Tl_residualControl := r\<rparr>))"
    by (simp add: hotCell_def stillCoeffs_def)
  have p: "vegCellPass (stillCoeffs\<lparr>Tl_residualControl := r\<rparr>) [hotCell] [Fin 1] [x] = ([Fin 400], True)"
    using v by (simp add: vegCellPass_def vegCellStep_def hotCell_raw Tl_min_def Tl_max_def
        max_scalar_def min_scalar_def)
  have k: "Tl_relax (stillCoeffs\<lparr>Tl_residualControl := r\<rparr>) = 0" by (simp add: stillCoeffs_def)
  show ?thesis
    by (simp add: vegIteration_def p k gMax_def max_scalar_def minus_doubleScalar_def)
qed

lemma hot_state:
  "vegState (stillCoeffs\<lparr>Tl_residualControl := r\<rparr>) [hotCell] [Fin 1] k
     = (if k = 0 then ([Fin 1], [Fin 1]) else ([Fin 1], [Fin 400]))"
  by (induction k) (simp_all add: hot_pass)


lemma hot_lines:
  "1 \<le> k \<Longrightarrow> vegLines (stillCoeffs\<lparr>Tl_residualControl := r\<rparr>) [hotCell] [Fin 1] k
     = [BoundingWarning, MaxTemp (Fin 400) k]"
  by (simp add: vegLines_def hot_state hot_pass)








end
